theory Spec2Isabelle
  imports Main
begin

section \<open>route53ddns: a shallow embedding of main.go\<close>

text \<open>
  The program keeps one Route53 address record equal to the caller's public IP address.
  Go strings are byte sequences, so they are modelled as \<open>string\<close> (a list of 8-bit
  characters). Every \<open>return err\<close>, every panic (an index out of range, a nil pointer
  dereference, \<open>session.Must\<close>), every \<open>log.Fatalf\<close> and every call to the DNS client
  is a branch or an output of the model.
\<close>

subsection \<open>Constants of main.go\<close>

definition RecordType :: string where
  "RecordType = ''A''"

definition FQDNEnvVar :: string where
  "FQDNEnvVar = ''CONFIG_R53DDNS_HOSTNAME''"

definition PublicIPURL :: string where
  "PublicIPURL = ''CONFIG_R53DDNS_IPURL''"

definition TTL :: int where
  "TTL = 300"

definition UpdateInterval :: nat where
  "UpdateInterval = 300"

definition newline :: char where
  "newline = CHR 0x0A"

subsection \<open>The Go library functions on strings that main.go calls\<close>

text \<open>
  \<open>strings.TrimSuffix(s, suffix)\<close>: when \<open>s\<close> ends with \<open>suffix\<close> the suffix is cut
  once, otherwise \<open>s\<close> is returned unchanged.
\<close>

definition HasSuffix :: "string \<Rightarrow> string \<Rightarrow> bool" where
  "HasSuffix s suffix =
     (length suffix \<le> length s \<and> drop (length s - length suffix) s = suffix)"

definition TrimSuffix :: "string \<Rightarrow> string \<Rightarrow> string" where
  "TrimSuffix s suffix =
     (if HasSuffix s suffix then take (length s - length suffix) s else s)"

text \<open>
  \<open>strings.Split(s, sep)\<close> for a separator of one byte: the pieces between the
  separators, in order; a string with \<open>n\<close> separators gives \<open>n + 1\<close> pieces, so the result
  is never empty. The accumulator holds the current piece, reversed.
\<close>

fun SplitAcc :: "string \<Rightarrow> char \<Rightarrow> string \<Rightarrow> string list" where
  "SplitAcc acc sep [] = [rev acc]"
| "SplitAcc acc sep (c # cs) =
     (if c = sep then rev acc # SplitAcc [] sep cs else SplitAcc (c # acc) sep cs)"

definition Split :: "string \<Rightarrow> char \<Rightarrow> string list" where
  "Split s sep = SplitAcc [] sep s"

text \<open>
  A Go slice index \<open>xs[i]\<close>: \<open>None\<close> stands for the run-time panic
  "index out of range".
\<close>

definition index :: "'a list \<Rightarrow> nat \<Rightarrow> 'a option" where
  "index xs i = (if i < length xs then Some (xs ! i) else None)"

subsection \<open>net.ParseIP\<close>

text \<open>
  \<open>getIP\<close> validates the text with \<open>net.ParseIP\<close> and returns \<open>ip.String()\<close>. Both are
  functions of Go's standard library (go.mod asks for Go 1.21, where \<open>net.ParseIP\<close> is
  \<open>netip.ParseAddr\<close> followed by a test that the address has no zone); they are modelled
  here statement by statement: \<open>parseIPv4\<close>, \<open>parseIPv6\<close>, \<open>ParseAddr\<close>, \<open>Zone\<close> and
  \<open>As16\<close> of net/netip, \<open>ParseIP\<close>, \<open>To4\<close> and \<open>String\<close> of net, \<open>appendDecimal\<close>,
  \<open>appendHex\<close>, \<open>string4\<close> and \<open>appendTo6\<close> of net/netip. A byte is a natural number
  below 256; the parser's accumulators stay far below the width of their Go types (\<open>val\<close>
  is at most 2559, \<open>acc\<close> at most 1048575), so no arithmetic wraps.

  Later releases of Go also end the inner loop of \<open>parseIPv6\<close> with an error at a
  fifth hexadecimal digit of one field; the model, like Go 1.21, only tests the value of
  the field. The two differ on texts with a field of more than four digits, which
  \<open>String\<close> never writes.
\<close>

definition isDigit :: "char \<Rightarrow> bool" where
  "isDigit c = (48 \<le> (of_char c :: nat) \<and> (of_char c :: nat) \<le> 57)"

text \<open>
  \<open>parseIPv4\<close>: one pass over the text. \<open>fields\<close> holds the octets finished so far (its
  length is \<open>pos\<close>), \<open>val\<close> and \<open>digLen\<close> describe the octet being read, \<open>prev\<close> is
  the byte before the current one (\<open>None\<close> at \<open>i = 0\<close>), and the rest of the text is
  empty exactly when \<open>i = len(s) - 1\<close>.
\<close>

fun parseIPv4Loop ::
  "nat list \<Rightarrow> nat \<Rightarrow> nat \<Rightarrow> char option \<Rightarrow> string \<Rightarrow> nat list option" where
  "parseIPv4Loop fields val digLen prev [] =
     (if length fields < 3 then None else Some (fields @ [val]))"
| "parseIPv4Loop fields val digLen prev (c # cs) =
     (if isDigit c then
        (if digLen = 1 \<and> val = 0 then None
         else (let val' = val * 10 + (of_char c - 48)
               in if val' > 255 then None
                  else parseIPv4Loop fields val' (digLen + 1) (Some c) cs))
      else if c = CHR ''.'' then
        (if prev = None \<or> cs = [] \<or> prev = Some CHR ''.'' then None
         else if length fields = 3 then None
         else parseIPv4Loop (fields @ [val]) 0 0 (Some c) cs)
      else None)"

definition parseIPv4 :: "string \<Rightarrow> nat list option" where
  "parseIPv4 s = parseIPv4Loop [] 0 0 None s"

text \<open>The value of a hexadecimal digit, in either case.\<close>

definition hexVal :: "char \<Rightarrow> nat option" where
  "hexVal c =
     (let n = (of_char c :: nat)
      in if 48 \<le> n \<and> n \<le> 57 then Some (n - 48)
         else if 97 \<le> n \<and> n \<le> 102 then Some (n - 97 + 10)
         else if 65 \<le> n \<and> n \<le> 70 then Some (n - 65 + 10)
         else None)"

text \<open>
  The inner loop of \<open>parseIPv6\<close> reads one hexadecimal field: the result is the value
  \<open>acc\<close>, the number \<open>off\<close> of digits read and the text from \<open>s[off]\<close> on, or \<open>None\<close>
  when the value passes 65535.
\<close>

fun scanHex :: "nat \<Rightarrow> nat \<Rightarrow> string \<Rightarrow> (nat \<times> nat \<times> string) option" where
  "scanHex acc off [] = Some (acc, off, [])"
| "scanHex acc off (c # cs) =
     (case hexVal c of
        None \<Rightarrow> Some (acc, off, c # cs)
      | Some d \<Rightarrow>
          (let acc' = acc * 16 + d
           in if acc' > 65535 then None else scanHex acc' (off + 1) cs))"

text \<open>
  The outer loop of \<open>parseIPv6\<close>, \<open>for i < 16\<close>. \<open>ip\<close> holds the bytes written so far
  (its length is \<open>i\<close>), \<open>ellipsis\<close> the position of \<open>::\<close> (\<open>None\<close> for -1). The result
  is the state after the loop, or \<open>None\<close> for a parse error.
\<close>

function parseIPv6Loop ::
  "nat list \<Rightarrow> nat option \<Rightarrow> string \<Rightarrow> (nat list \<times> nat option \<times> string) option" where
  "parseIPv6Loop ip ellipsis s =
     (if \<not> length ip < 16 then Some (ip, ellipsis, s)
      else
        (case scanHex 0 0 s of
           None \<Rightarrow> None
         | Some (acc, off, rest) \<Rightarrow>
             if off = 0 then None
             else if rest \<noteq> [] \<and> hd rest = CHR ''.'' then
               (if ellipsis = None \<and> length ip \<noteq> 12 then None
                else if length ip + 4 > 16 then None
                else (case parseIPv4 s of
                        None \<Rightarrow> None
                      | Some ip4 \<Rightarrow> Some (ip @ ip4, ellipsis, [])))
             else
               (let ip' = ip @ [acc div 256, acc mod 256]
                in case rest of
                     [] \<Rightarrow> Some (ip', ellipsis, [])
                   | c # cs \<Rightarrow>
                       if c \<noteq> CHR '':'' then None
                       else
                         (case cs of
                            [] \<Rightarrow> None
                          | c2 # cs2 \<Rightarrow>
                              if c2 = CHR '':'' then
                                (if ellipsis \<noteq> None then None
                                 else if cs2 = [] then Some (ip', Some (length ip'), [])
                                 else parseIPv6Loop ip' (Some (length ip')) cs2)
                              else parseIPv6Loop ip' ellipsis cs))))"
  by pat_completeness auto
termination
  by (relation "measure (\<lambda>(ip, ellipsis, s). 16 - length ip)") auto

text \<open>
  A \<open>netip.Addr\<close>: an IPv4 address of four bytes, or an IPv6 address of sixteen bytes
  with its zone (empty for no zone).
\<close>

datatype Addr = Addr4 "nat list" | Addr6 "nat list" string

definition notPercent :: "char \<Rightarrow> bool" where
  "notPercent c = (c \<noteq> CHR ''%'')"

text \<open>
  The end of \<open>parseIPv6\<close>, after the loop: the whole text must have been used, and
  the ellipsis is expanded: the bytes from \<open>ellipsis\<close> on move to the end and the gap
  is filled with zeros. An address of sixteen bytes must not have an ellipsis.
\<close>

definition parseIPv6End ::
  "string \<Rightarrow> (nat list \<times> nat option \<times> string) option \<Rightarrow> Addr option" where
  "parseIPv6End zone st =
     (case st of
        None \<Rightarrow> None
      | Some (ip, ellipsis, s) \<Rightarrow>
          if s \<noteq> [] then None
          else if length ip < 16 then
            (case ellipsis of
               None \<Rightarrow> None
             | Some e \<Rightarrow>
                 Some (Addr6 (take e ip @ replicate (16 - length ip) 0 @ drop e ip) zone))
          else if ellipsis \<noteq> None then None
          else Some (Addr6 ip zone))"

text \<open>
  \<open>parseIPv6\<close>: split the zone off at the first \<open>%\<close> (a \<open>%\<close> with nothing after it is
  an error), take a leading \<open>::\<close> (which alone is the unspecified address), run the
  loop and finish.
\<close>

definition parseIPv6 :: "string \<Rightarrow> Addr option" where
  "parseIPv6 input =
     (let s0 = takeWhile notPercent input;
          hasZone = (dropWhile notPercent input \<noteq> []);
          zone = tl (dropWhile notPercent input)
      in if hasZone \<and> zone = [] then None
         else
           (let leading = (length s0 \<ge> 2 \<and> s0 ! 0 = CHR '':'' \<and> s0 ! 1 = CHR '':'');
                s1 = (if leading then drop 2 s0 else s0);
                ellipsis0 = (if leading then Some 0 else None)
            in if leading \<and> s1 = [] then Some (Addr6 (replicate 16 0) zone)
               else parseIPv6End zone (parseIPv6Loop [] ellipsis0 s1)))"

text \<open>
  \<open>netip.ParseAddr\<close>: the first \<open>.\<close>, \<open>:\<close> or \<open>%\<close> of the text decides how the whole
  text is parsed.
\<close>

fun ParseAddrLoop :: "string \<Rightarrow> string \<Rightarrow> Addr option" where
  "ParseAddrLoop s [] = None"
| "ParseAddrLoop s (c # cs) =
     (if c = CHR ''.'' then map_option Addr4 (parseIPv4 s)
      else if c = CHR '':'' then parseIPv6 s
      else if c = CHR ''%'' then None
      else ParseAddrLoop s cs)"

definition ParseAddr :: "string \<Rightarrow> Addr option" where
  "ParseAddr s = ParseAddrLoop s s"

fun Zone :: "Addr \<Rightarrow> string" where
  "Zone (Addr4 fields) = []"
| "Zone (Addr6 ip zone) = zone"

text \<open>\<open>As16\<close>: an IPv4 address becomes the IPv4-mapped IPv6 address \<open>::ffff:a.b.c.d\<close>.\<close>

fun As16 :: "Addr \<Rightarrow> nat list" where
  "As16 (Addr4 fields) = replicate 10 0 @ [255, 255] @ fields"
| "As16 (Addr6 ip zone) = ip"

text \<open>\<open>net.ParseIP\<close>: a slice of sixteen bytes, or nil (\<open>None\<close>).\<close>

definition ParseIP :: "string \<Rightarrow> nat list option" where
  "ParseIP s =
     (case ParseAddr s of
        None \<Rightarrow> None
      | Some addr \<Rightarrow> if Zone addr \<noteq> [] then None else Some (As16 addr))"

subsection \<open>net.IP.String\<close>

definition hexDigit :: "nat \<Rightarrow> char" where
  "hexDigit n = ''0123456789abcdef'' ! n"

text \<open>\<open>appendDecimal\<close> and \<open>appendHex\<close>: a byte in decimal, a 16-bit group in lower-case
  hexadecimal, both without leading zeros.\<close>

definition appendDecimal :: "nat \<Rightarrow> string" where
  "appendDecimal x =
     (if x \<ge> 100 then [hexDigit (x div 100)] else [])
     @ (if x \<ge> 10 then [hexDigit (x div 10 mod 10)] else [])
     @ [hexDigit (x mod 10)]"

definition appendHex :: "nat \<Rightarrow> string" where
  "appendHex x =
     (if x \<ge> 4096 then [hexDigit (x div 4096)] else [])
     @ (if x \<ge> 256 then [hexDigit (x div 256 mod 16)] else [])
     @ (if x \<ge> 16 then [hexDigit (x div 16 mod 16)] else [])
     @ [hexDigit (x mod 16)]"

definition string4 :: "nat list \<Rightarrow> string" where
  "string4 p4 =
     appendDecimal (p4 ! 0) @ ''.'' @ appendDecimal (p4 ! 1) @ ''.''
       @ appendDecimal (p4 ! 2) @ ''.'' @ appendDecimal (p4 ! 3)"

text \<open>\<open>v6u16(i)\<close>: the \<open>i\<close>-th 16-bit group of a sixteen-byte address.\<close>

definition v6u16 :: "nat list \<Rightarrow> nat \<Rightarrow> nat" where
  "v6u16 ip i = ip ! (2 * i) * 256 + ip ! (2 * i + 1)"

text \<open>
  The first loop of \<open>appendTo6\<close> looks for the longest run of zero groups, the first one
  among equals, of length two at least; \<open>zeroStart = zeroEnd = 255\<close> when there is none.
  \<open>zeroRunFrom\<close> is the inner loop \<open>for j < 8 && ip.v6u16(j) == 0\<close>.
\<close>

function zeroRunFrom :: "nat list \<Rightarrow> nat \<Rightarrow> nat" where
  "zeroRunFrom ip j = (if j < 8 \<and> v6u16 ip j = 0 then zeroRunFrom ip (j + 1) else j)"
  by pat_completeness auto
termination
  by (relation "measure (\<lambda>(ip, j). 8 - j)") auto

function findZeroRun :: "nat list \<Rightarrow> nat \<Rightarrow> nat \<Rightarrow> nat \<Rightarrow> nat \<times> nat" where
  "findZeroRun ip zeroStart zeroEnd i =
     (if i < 8 then
        (let j = zeroRunFrom ip i; l = j - i
         in if l \<ge> 2 \<and> l > zeroEnd - zeroStart
            then findZeroRun ip i j (i + 1)
            else findZeroRun ip zeroStart zeroEnd (i + 1))
      else (zeroStart, zeroEnd))"
  by pat_completeness auto
termination
  by (relation "measure (\<lambda>(ip, zeroStart, zeroEnd, i). 8 - i)") auto

definition zeroStart :: "nat list \<Rightarrow> nat" where
  "zeroStart ip = fst (findZeroRun ip 255 255 0)"

definition zeroEnd :: "nat list \<Rightarrow> nat" where
  "zeroEnd ip = snd (findZeroRun ip 255 255 0)"


declare zeroRunFrom.simps [simp del]
declare findZeroRun.simps [simp del]

lemma findZeroRun_ordered:
  "(zs < 8 \<Longrightarrow> zs < ze) \<Longrightarrow> fst (findZeroRun ip zs ze i) < 8 \<Longrightarrow>
   fst (findZeroRun ip zs ze i) < snd (findZeroRun ip zs ze i)"
proof (induction ip zs ze i rule: findZeroRun.induct)
  case (1 ip zeroStart zeroEnd i)
  show ?case
  proof (cases "i < 8")
    case False
    then have "findZeroRun ip zeroStart zeroEnd i = (zeroStart, zeroEnd)"
      by (subst findZeroRun.simps) simp
    with "1.prems" show ?thesis by simp
  next
    case True
    show ?thesis
    proof (cases "zeroRunFrom ip i - i \<ge> 2 \<and> zeroRunFrom ip i - i > zeroEnd - zeroStart")
      case yes: True
      then have eq: "findZeroRun ip zeroStart zeroEnd i = findZeroRun ip i (zeroRunFrom ip i) (i + 1)"
        using True by (subst findZeroRun.simps) (simp add: Let_def)
      from yes have "i < zeroRunFrom ip i" by arith
      with "1.IH"(1) [OF True refl refl yes] "1.prems"(2) show ?thesis
        unfolding eq by blast
    next
      case no: False
      then have eq: "findZeroRun ip zeroStart zeroEnd i = findZeroRun ip zeroStart zeroEnd (i + 1)"
        using True by (subst findZeroRun.simps) (auto simp: Let_def)
      from "1.IH"(2) [OF True refl refl no] "1.prems" show ?thesis
        unfolding eq by blast
    qed
  qed
qed

lemma zeroStart_less_zeroEnd: "zeroStart ip < 8 \<Longrightarrow> zeroStart ip < zeroEnd ip"
  unfolding zeroStart_def zeroEnd_def by (rule findZeroRun_ordered) simp_all

text \<open>
  The second loop of \<open>appendTo6\<close> writes the groups: at \<open>zeroStart\<close> it writes \<open>::\<close>
  and jumps to \<open>zeroEnd\<close>. It ends because the run found is never empty.
\<close>

function appendTo6Loop :: "nat list \<Rightarrow> nat \<Rightarrow> string" where
  "appendTo6Loop ip i =
     (if i < 8 then
        (if i = zeroStart ip then
           ''::'' @ (if zeroEnd ip \<ge> 8 then []
                     else appendHex (v6u16 ip (zeroEnd ip)) @ appendTo6Loop ip (zeroEnd ip + 1))
         else (if i > 0 then '':'' else []) @ appendHex (v6u16 ip i) @ appendTo6Loop ip (i + 1))
      else [])"
  by pat_completeness auto
termination
proof (relation "measure (\<lambda>(ip, i). 8 - i)")
  show "wf (measure (\<lambda>(ip, i). 8 - i))" by simp
next
  fix ip :: "nat list" and i :: nat
  assume "i < 8" "i = zeroStart ip" "\<not> 8 \<le> zeroEnd ip"
  then show "((ip, zeroEnd ip + 1), (ip, i)) \<in> measure (\<lambda>(ip, i). 8 - i)"
    using zeroStart_less_zeroEnd [of ip] by simp
next
  fix ip :: "nat list" and i :: nat
  assume "i < 8" "i \<noteq> zeroStart ip"
  then show "((ip, i + 1), (ip, i)) \<in> measure (\<lambda>(ip, i). 8 - i)"
    by simp
qed

declare appendTo6Loop.simps [simp del]
declare parseIPv6Loop.simps [simp del]

definition string6 :: "nat list \<Rightarrow> string" where
  "string6 ip = appendTo6Loop ip 0"

text \<open>
  \<open>To4\<close>: the four bytes of an IPv4 address, from a slice of four bytes or from an
  IPv4-mapped slice of sixteen; \<open>None\<close> for nil.
\<close>

definition To4 :: "nat list \<Rightarrow> nat list option" where
  "To4 ip =
     (if length ip = 4 then Some ip
      else if length ip = 16 \<and> take 10 ip = replicate 10 0 \<and> ip ! 10 = 255 \<and> ip ! 11 = 255
      then Some (drop 12 ip)
      else None)"

definition hexString :: "nat list \<Rightarrow> string" where
  "hexString b = concat (map (\<lambda>tn. [hexDigit (tn div 16), hexDigit (tn mod 16)]) b)"

text \<open>
  \<open>ip.String()\<close>: dotted decimal for an IPv4 or IPv4-mapped address, else the IPv6
  text form with the longest run of zero groups written \<open>::\<close>.
\<close>

definition String :: "nat list \<Rightarrow> string" where
  "String ip =
     (if length ip = 0 then ''<nil>''
      else if length ip \<noteq> 4 \<and> length ip \<noteq> 16 then ''?'' @ hexString ip
      else (case To4 ip of Some p4 \<Rightarrow> string4 p4 | None \<Rightarrow> string6 ip))"

subsection \<open>The hostname regular expression\<close>

text \<open>
  \<open>domainRegex = regexp.MustCompile(`^([^\x2E]*)\x2E(.*)$`)\<close> and
  \<open>domainRegex.FindStringSubmatch(fqdn)\<close>. The first group can only consume bytes that
  are not a period, so the literal period of the pattern is the first period of the input;
  with Go's default flags \<open>.\<close> matches every byte but a newline and \<open>$\<close> is the end of
  the text, so the match exists exactly when the text after the first period holds no
  newline. The result is the slice [whole match, group 1, group 2], or nil (the empty
  slice) without a match.
\<close>

definition notPeriod :: "char \<Rightarrow> bool" where
  "notPeriod c = (c \<noteq> CHR ''.'')"

definition FindStringSubmatch :: "string \<Rightarrow> string list" where
  "FindStringSubmatch s =
     (case dropWhile notPeriod s of
        [] \<Rightarrow> []
      | p # rest \<Rightarrow>
          if newline \<in> set rest then [] else [s, takeWhile notPeriod s, rest])"

subsection \<open>The Route53 client\<close>

text \<open>
  The shapes of aws-sdk-go's route53 package that main.go reads and builds. Members
  the service marks as required are plain values; \<open>DNSName\<close> of the zone listing and
  \<open>TTL\<close> of a record set are optional members (nil pointers when absent), so they are
  options. An SDK error is modelled by its message.
\<close>

record HostedZone =
  zone_Id :: string
  zone_Name :: string

record ListHostedZonesByNameInput =
  lhz_DNSName :: string
  lhz_MaxItems :: string

record ListHostedZonesByNameOutput =
  out_DNSName :: "string option"
  out_HostedZones :: "HostedZone list"

record ResourceRecord =
  rr_Value :: string

record ResourceRecordSet =
  rrs_Name :: string
  rrs_Type :: string
  rrs_ResourceRecords :: "ResourceRecord list"
  rrs_TTL :: "int option"

record ListResourceRecordSetsInput =
  lrr_StartRecordName :: string
  lrr_StartRecordType :: string
  lrr_HostedZoneId :: string
  lrr_MaxItems :: string

record ListResourceRecordSetsOutput =
  out_ResourceRecordSets :: "ResourceRecordSet list"

record Change =
  chg_Action :: string
  chg_ResourceRecordSet :: ResourceRecordSet

record ChangeBatch =
  cb_Changes :: "Change list"

record ChangeResourceRecordSetsInput =
  crr_ChangeBatch :: ChangeBatch
  crr_HostedZoneId :: string

text \<open>
  The client answers each of the three operations main.go uses with an SDK error or an
  output; one reconciliation calls each operation at most once, so a function per
  operation covers every behaviour of the provider within a cycle.
\<close>

record Route53 =
  ListHostedZonesByName :: "ListHostedZonesByNameInput \<Rightarrow> string + ListHostedZonesByNameOutput"
  ListResourceRecordSets :: "ListResourceRecordSetsInput \<Rightarrow> string + ListResourceRecordSetsOutput"
  ChangeResourceRecordSets :: "ChangeResourceRecordSetsInput \<Rightarrow> string + unit"

text \<open>The calls a run issues to the provider, in order.\<close>

datatype call =
    CallListHostedZonesByName ListHostedZonesByNameInput
  | CallListResourceRecordSets ListResourceRecordSetsInput
  | CallChangeResourceRecordSets ChangeResourceRecordSetsInput

fun isUpsertCall :: "call \<Rightarrow> bool" where
  "isUpsertCall (CallChangeResourceRecordSets p) = True"
| "isUpsertCall c = False"

fun isListRecordsCall :: "call \<Rightarrow> bool" where
  "isListRecordsCall (CallListResourceRecordSets p) = True"
| "isListRecordsCall c = False"

subsection \<open>Errors, panics and runs\<close>

text \<open>
  One constructor for each place where main.go makes or passes on an error:
  \<^item> \<open>TransportError\<close>: the error of \<open>http.Get\<close> or \<open>io.ReadAll\<close>, returned as it is;
  \<^item> \<open>InvalidAddressError\<close>: "not a valid IP address" in \<open>getIP\<close>;
  \<^item> \<open>ZoneLookupError\<close>: the error of \<open>ListHostedZonesByName\<close>, returned as it is;
  \<^item> \<open>ZoneNotFoundError domain\<close>: "could not find domain";
  \<^item> \<open>ZoneMismatchError domain name\<close>: the error of the \<open>DNSName\<close> check;
  \<^item> \<open>ListRecordsError domain err\<close>: "error listing records";
  \<^item> \<open>UpdateRejectedError err\<close>: "failed to update record set";
  \<^item> \<open>ResolvePhaseError\<close> and \<open>UpdatePhaseError\<close>: the two wrappers of \<open>getIPAndUpdate\<close>.
\<close>

datatype error =
    TransportError string
  | InvalidAddressError
  | ZoneLookupError string
  | ZoneNotFoundError string
  | ZoneMismatchError string string
  | ListRecordsError string string
  | UpdateRejectedError string
  | ResolvePhaseError error
  | UpdatePhaseError error

text \<open>The text of each error, as the \<open>fmt.Sprintf\<close> of its place builds it.\<close>

fun errorText :: "error \<Rightarrow> string" where
  "errorText (TransportError e) = e"
| "errorText InvalidAddressError = ''not a valid IP address: <nil>''"
| "errorText (ZoneLookupError e) = e"
| "errorText (ZoneNotFoundError domain) =
     ''could not find domain ('' @ domain @ ''): <nil>'' @ [newline]"
| "errorText (ZoneMismatchError domain name) = domain @ '' - '' @ name @ '')'' @ [newline]"
| "errorText (ListRecordsError domain e) =
     ''error listing records ('' @ domain @ ''): '' @ e @ [newline]"
| "errorText (UpdateRejectedError e) = ''failed to update record set: '' @ e @ [newline]"
| "errorText (ResolvePhaseError e) = ''unable to determine ip address: '' @ errorText e"
| "errorText (UpdatePhaseError e) = ''could not update record: '' @ errorText e"

datatype panic = IndexOutOfRange | NilDereference

text \<open>
  How a Go function of type \<open>func(...) error\<close> ends: it returns nil (\<open>Returned None\<close>),
  returns an error, or panics.
\<close>

datatype outcome = Returned "error option" | Panicked panic

record run =
  result :: outcome
  calls :: "call list"
  logs :: "string list"

definition finish :: "outcome \<Rightarrow> call list \<Rightarrow> string list \<Rightarrow> run" where
  "finish r cs ls = \<lparr>result = r, calls = cs, logs = ls\<rparr>"

subsection \<open>upsertRoute53Record\<close>

text \<open>The loop over the values of the record found: is one of them the address?\<close>

fun valueRegistered :: "ResourceRecord list \<Rightarrow> string \<Rightarrow> bool" where
  "valueRegistered [] ip = False"
| "valueRegistered (rr # rrs) ip =
     (if rr_Value rr = ip then True else valueRegistered rrs ip)"

definition registeredLine :: "string \<Rightarrow> string \<Rightarrow> string" where
  "registeredLine ip fqdn = ip @ '' already registered in route53 as '' @ fqdn @ [newline]"

definition submittedLine :: "string \<Rightarrow> string \<Rightarrow> string \<Rightarrow> string" where
  "submittedLine zoneID ip fqdn =
     ''submitted change for zone ID '' @ zoneID @ '' to register '' @ ip @ '' as '' @ fqdn
       @ [newline]"

definition zoneLookupInput :: "string \<Rightarrow> ListHostedZonesByNameInput" where
  "zoneLookupInput domain = \<lparr>lhz_DNSName = domain @ ''.'', lhz_MaxItems = ''1''\<rparr>"

definition listRecordsInput :: "string \<Rightarrow> string \<Rightarrow> ListResourceRecordSetsInput" where
  "listRecordsInput fqdn zoneID =
     \<lparr>lrr_StartRecordName = fqdn, lrr_StartRecordType = RecordType,
      lrr_HostedZoneId = zoneID, lrr_MaxItems = ''1''\<rparr>"

definition resourceRecordSet :: "string \<Rightarrow> string \<Rightarrow> ResourceRecordSet" where
  "resourceRecordSet ip fqdn =
     \<lparr>rrs_Name = fqdn @ ''.'', rrs_Type = ''A'',
      rrs_ResourceRecords = [\<lparr>rr_Value = ip\<rparr>], rrs_TTL = Some TTL\<rparr>"

definition upsertParams :: "string \<Rightarrow> string \<Rightarrow> string \<Rightarrow> ChangeResourceRecordSetsInput" where
  "upsertParams ip fqdn zoneID =
     \<lparr>crr_ChangeBatch =
        \<lparr>cb_Changes =
           [\<lparr>chg_Action = ''UPSERT'', chg_ResourceRecordSet = resourceRecordSet ip fqdn\<rparr>]\<rparr>,
      crr_HostedZoneId = zoneID\<rparr>"

text \<open>Lines 166 to 201: build the A record, submit the upsert, log the change.\<close>

definition submitUpsert ::
  "string \<Rightarrow> string \<Rightarrow> Route53 \<Rightarrow> string \<Rightarrow> call list \<Rightarrow> run" where
  "submitUpsert ip fqdn dnsClient zoneID cs =
     (let params = upsertParams ip fqdn zoneID;
          cs' = cs @ [CallChangeResourceRecordSets params]
      in case ChangeResourceRecordSets dnsClient params of
           Inl err \<Rightarrow> finish (Returned (Some (UpdateRejectedError err))) cs' []
         | Inr u \<Rightarrow> finish (Returned None) cs' [submittedLine zoneID ip fqdn])"

text \<open>Lines 140 to 164: list the records from \<open>fqdn\<close> on and look for the address.\<close>

definition reconcileRecords ::
  "string \<Rightarrow> string \<Rightarrow> Route53 \<Rightarrow> string \<Rightarrow> string \<Rightarrow> call list \<Rightarrow> run" where
  "reconcileRecords ip fqdn dnsClient domain zoneID cs =
     (let input = listRecordsInput fqdn zoneID;
          cs' = cs @ [CallListResourceRecordSets input]
      in case ListResourceRecordSets dnsClient input of
           Inl err \<Rightarrow> finish (Returned (Some (ListRecordsError domain err))) cs' []
         | Inr resp \<Rightarrow>
             (case out_ResourceRecordSets resp of
                [rrset] \<Rightarrow>
                  if rrs_Name rrset = fqdn @ ''.''
                       \<and> valueRegistered (rrs_ResourceRecords rrset) ip
                  then finish (Returned None) cs' [registeredLine ip fqdn]
                  else submitUpsert ip fqdn dnsClient zoneID cs'
              | _ \<Rightarrow> submitUpsert ip fqdn dnsClient zoneID cs'))"

text \<open>
  Lines 113 to 138: split the hostname, look the zone up, validate the answer, take the
  zone id. \<open>tokens[2]\<close> panics when the regular expression did not match (nil slice);
  \<open>*resources.DNSName\<close> panics when the answer carries no \<open>DNSName\<close>.
\<close>

definition upsertRoute53Record :: "string \<Rightarrow> string \<Rightarrow> Route53 \<Rightarrow> run" where
  "upsertRoute53Record ip fqdn dnsClient =
     (let tokens = FindStringSubmatch fqdn
      in case index tokens 2 of
           None \<Rightarrow> finish (Panicked IndexOutOfRange) [] []
         | Some domain \<Rightarrow>
             (let input = zoneLookupInput domain;
                  cs = [CallListHostedZonesByName input]
              in case ListHostedZonesByName dnsClient input of
                   Inl err \<Rightarrow> finish (Returned (Some (ZoneLookupError err))) cs []
                 | Inr resources \<Rightarrow>
                     (case out_HostedZones resources of
                        [zone] \<Rightarrow>
                          (case out_DNSName resources of
                             None \<Rightarrow> finish (Panicked NilDereference) cs []
                           | Some name \<Rightarrow>
                               if name \<noteq> domain @ ''.''
                               then finish (Returned (Some (ZoneMismatchError domain name))) cs []
                               else
                                 (let zoneIDTokens = Split (zone_Id zone) CHR ''/''
                                  in case index zoneIDTokens (length zoneIDTokens - 1) of
                                       None \<Rightarrow> finish (Panicked IndexOutOfRange) cs []
                                     | Some zoneID \<Rightarrow>
                                         reconcileRecords ip fqdn dnsClient domain zoneID cs))
                      | _ \<Rightarrow> finish (Returned (Some (ZoneNotFoundError domain))) cs [])))"


subsection \<open>getIP\<close>

text \<open>
  The answer of \<open>http.Get\<close>: \<open>io.ReadAll(resp.Body)\<close> gives an error or the bytes of the
  body, and \<open>Body.Close()\<close> may give an error, which the deferred function logs.
\<close>

record Response =
  resp_ReadAll :: "string + string"
  resp_Close :: "string option"

definition closeLines :: "Response \<Rightarrow> string list" where
  "closeLines resp =
     (case resp_Close resp of
        None \<Rightarrow> []
      | Some err \<Rightarrow> [''unable to close http socket: '' @ err])"

text \<open>\<open>getIP\<close> returns the address or an error, and the lines it logged.\<close>

definition getIP :: "(string \<Rightarrow> string + Response) \<Rightarrow> string \<Rightarrow> (error + string) \<times> string list" where
  "getIP httpGet ipURL =
     (case httpGet ipURL of
        Inl err \<Rightarrow> (Inl (TransportError err), [])
      | Inr resp \<Rightarrow>
          (case resp_ReadAll resp of
             Inl err \<Rightarrow> (Inl (TransportError err), closeLines resp)
           | Inr body \<Rightarrow>
               (let formatted = TrimSuffix body [newline]
                in case ParseIP formatted of
                     None \<Rightarrow> (Inl InvalidAddressError, closeLines resp)
                   | Some ip \<Rightarrow> (Inr (String ip), closeLines resp))))"

subsection \<open>getIPAndUpdate\<close>

text \<open>
  One reconciliation cycle. The globals \<open>ipURL\<close>, \<open>fqdn\<close> and \<open>dnsClient\<close> are
  parameters. An error of either phase is wrapped and returned to the scheduler; a
  panic of \<open>upsertRoute53Record\<close> is not recovered here.
\<close>

definition getIPAndUpdate ::
  "(string \<Rightarrow> string + Response) \<Rightarrow> string \<Rightarrow> string \<Rightarrow> Route53 \<Rightarrow> run" where
  "getIPAndUpdate httpGet ipURL fqdn dnsClient =
     (case getIP httpGet ipURL of
        (Inl err, ls) \<Rightarrow> finish (Returned (Some (ResolvePhaseError err))) [] ls
      | (Inr ip, ls) \<Rightarrow>
          (let r = upsertRoute53Record ip fqdn dnsClient
           in case result r of
                Returned (Some err) \<Rightarrow>
                  finish (Returned (Some (UpdatePhaseError err))) (calls r) (ls @ logs r)
              | Returned None \<Rightarrow> finish (Returned None) (calls r) (ls @ logs r)
              | Panicked p \<Rightarrow> finish (Panicked p) (calls r) (ls @ logs r)))"

subsection \<open>init and main\<close>

text \<open>
  The scheduler of \<open>gocron\<close>, as far as \<open>main.go\<close> uses it: its location, the interval
  in seconds of each job it holds, and whether it has been started.
  \<open>gocron.NewScheduler\<close> gives a scheduler that holds no job and is not running;
  \<open>StartBlocking\<close> starts it and does not return.
\<close>

record Scheduler =
  sch_location :: string
  sch_jobs :: "nat list"
  sch_running :: bool

definition NewScheduler :: "string \<Rightarrow> Scheduler" where
  "NewScheduler loc = \<lparr>sch_location = loc, sch_jobs = [], sch_running = False\<rparr>"

definition StartBlocking :: "Scheduler \<Rightarrow> Scheduler" where
  "StartBlocking s = s\<lparr>sch_running := True\<rparr>"

text \<open>
  The package variables that \<open>init\<close> assigns. The three pointers are \<open>nil\<close>, here
  \<open>None\<close>, until they are assigned; \<open>'s\<close> is the type of an AWS session.
\<close>

record 's globals =
  g_fqdn :: string
  g_ipURL :: string
  g_scheduler :: "Scheduler option"
  g_awsSession :: "'s option"
  g_dnsClient :: "Route53 option"

definition unset :: "'s globals" where
  "unset = \<lparr>g_fqdn = [], g_ipURL = [], g_scheduler = None, g_awsSession = None,
             g_dnsClient = None\<rparr>"

text \<open>
  The two ways in which \<open>init\<close> ends the process: \<open>log.Fatalf\<close> writes the line and
  exits with status 1; \<open>session.Must\<close> panics with the error of
  \<open>session.NewSession\<close>.
\<close>

datatype stop = Fatal string | SessionPanic string

text \<open>
  \<open>init\<close>, statement by statement; it runs after the package variables have their
  initial values. \<open>os.Getenv\<close> gives the empty string for a variable that is not set.
  \<open>newSession\<close> is the result of \<open>session.NewSession()\<close>, which depends on the
  environment and the files of the SDK; \<open>route53New sess\<close> is
  \<open>route53.New(sess, aws.NewConfig())\<close>. The result: how \<open>init\<close> ended the process,
  \<open>None\<close> when it returned, and the package variables at that moment.
\<close>

definition init ::
  "(string \<Rightarrow> string) \<Rightarrow> string + 's \<Rightarrow> ('s \<Rightarrow> Route53) \<Rightarrow> stop option \<times> 's globals" where
  "init getenv newSession route53New =
     (let g1 = unset\<lparr>g_fqdn := getenv FQDNEnvVar\<rparr>
      in if g_fqdn g1 = []
         then (Some (Fatal (FQDNEnvVar @ '' environmental variable is not set'')), g1)
         else
           (let g2 = g1\<lparr>g_ipURL := getenv PublicIPURL\<rparr>
            in if g_ipURL g2 = []
               then (Some (Fatal (PublicIPURL @ '' environmental variable is not set'')), g2)
               else
                 (let g3 = g2\<lparr>g_scheduler := Some (NewScheduler ''UTC'')\<rparr>
                  in case newSession of
                       Inl err \<Rightarrow> (Some (SessionPanic err), g3)
                     | Inr sess \<Rightarrow>
                         (let g4 = g3\<lparr>g_awsSession := Some sess\<rparr>;
                              g5 = g4\<lparr>g_dnsClient := Some (route53New sess)\<rparr>
                          in (None, g5)))))"

text \<open>
  \<open>main\<close>. \<open>doErr\<close> is the error that \<open>scheduler.Every(UpdateInterval).Seconds().Do\<close>
  returns, \<open>None\<close> when the job has been added; \<open>main\<close> logs it and goes on. The result
  is the lines logged and the scheduler at the moment \<open>StartBlocking\<close> blocks.
\<close>

definition main :: "string option \<Rightarrow> Scheduler \<Rightarrow> string list \<times> Scheduler" where
  "main doErr scheduler =
     (case doErr of
        None \<Rightarrow>
          ([], StartBlocking (scheduler\<lparr>sch_jobs := sch_jobs scheduler @ [UpdateInterval]\<rparr>))
      | Some err \<Rightarrow> ([''failure setting up job: '' @ err], StartBlocking scheduler))"

text \<open>
  The process: the Go runtime runs \<open>init\<close> and, once \<open>init\<close> has returned, \<open>main\<close>.
  \<open>Stopped\<close>: \<open>init\<close> ended the process, and \<open>main\<close> did not run. \<open>Serving\<close>: \<open>main\<close>
  has reached \<open>StartBlocking\<close>. \<open>main\<close> uses the scheduler through its pointer; a
  \<open>nil\<close> pointer there is a panic of the runtime (\<open>NilScheduler\<close>).
\<close>

datatype 's process =
    Stopped stop "'s globals"
  | NilScheduler "'s globals"
  | Serving "string list" "'s globals"

definition program ::
  "(string \<Rightarrow> string) \<Rightarrow> string + 's \<Rightarrow> ('s \<Rightarrow> Route53) \<Rightarrow> string option \<Rightarrow> 's process" where
  "program getenv newSession route53New doErr =
     (case init getenv newSession route53New of
        (Some st, g) \<Rightarrow> Stopped st g
      | (None, g) \<Rightarrow>
          (case g_scheduler g of
             None \<Rightarrow> NilScheduler g
           | Some s \<Rightarrow>
               (case main doErr s of
                  (ls, s') \<Rightarrow> Serving ls (g\<lparr>g_scheduler := Some s'\<rparr>))))"

text \<open>
  The package variables of a process, and whether its scheduler has been started.
\<close>

fun globalsOf :: "'s process \<Rightarrow> 's globals" where
  "globalsOf (Stopped st g) = g"
| "globalsOf (NilScheduler g) = g"
| "globalsOf (Serving ls g) = g"

definition schedulerStarted :: "'s process \<Rightarrow> bool" where
  "schedulerStarted p =
     (case g_scheduler (globalsOf p) of
        None \<Rightarrow> False
      | Some s \<Rightarrow> sch_running s)"


subsection \<open>A test double for the provider\<close>

text \<open>
  A client that gives the same answer to every zone lookup, to every record listing and
  to every change; the concrete runs below use it.
\<close>

definition stubClient ::
  "ListHostedZonesByNameOutput \<Rightarrow> ListResourceRecordSetsOutput \<Rightarrow> string + unit \<Rightarrow> Route53" where
  "stubClient zones records change =
     \<lparr>ListHostedZonesByName = (\<lambda>input. Inr zones),
      ListResourceRecordSets = (\<lambda>input. Inr records),
      ChangeResourceRecordSets = (\<lambda>input. change)\<rparr>"

definition zoneAnswer :: "string \<Rightarrow> string \<Rightarrow> string \<Rightarrow> ListHostedZonesByNameOutput" where
  "zoneAnswer dnsName zoneId zoneName =
     \<lparr>out_DNSName = Some dnsName,
      out_HostedZones = [\<lparr>zone_Id = zoneId, zone_Name = zoneName\<rparr>]\<rparr>"

definition recordAnswer :: "string \<Rightarrow> string list \<Rightarrow> ListResourceRecordSetsOutput" where
  "recordAnswer name vals =
     \<lparr>out_ResourceRecordSets =
        [\<lparr>rrs_Name = name, rrs_Type = ''A'',
          rrs_ResourceRecords = map (\<lambda>v. \<lparr>rr_Value = v\<rparr>) vals, rrs_TTL = Some 300\<rparr>]\<rparr>"


text \<open>Two answers of \<open>http.Get\<close>: a body that is read and closed without error, and a
  transport failure.\<close>

definition httpBody :: "string \<Rightarrow> string \<Rightarrow> string + Response" where
  "httpBody body url = Inr \<lparr>resp_ReadAll = Inr body, resp_Close = None\<rparr>"

definition httpDown :: "string \<Rightarrow> string \<Rightarrow> string + Response" where
  "httpDown err url = Inl err"

subsection \<open>Notions used in the proofs about addresses\<close>

text \<open>
  None of these is part of the program; the lemmas below use them to describe what
  \<open>String\<close> prints and what the parsers read. \<open>validIP\<close>: a slice of sixteen bytes.
  \<open>groups ip a b\<close>: the 16-bit groups \<open>a\<close> to \<open>b - 1\<close> of an address; \<open>bytesOf\<close>: the
  bytes of a list of groups. \<open>colonGroups\<close>: groups in hexadecimal, each after a colon;
  \<open>tailText\<close>: what \<open>appendTo6\<close> writes after \<open>::\<close>; \<open>dotted\<close>: octets in decimal, each
  followed by a period. \<open>zeroRunOk\<close>: a run that was found has two groups at least, ends
  within the address and holds zero groups only. \<open>textChar\<close>: a colon or a lower-case
  hexadecimal digit. \<open>addressChar\<close>: a hexadecimal digit of either case, a colon or a
  period. \<open>decimalOctet\<close>: a number below 256 in decimal, without leading zeros.
  \<open>dottedQuad\<close>: the periods of the text separate four fields, each a \<open>decimalOctet\<close>.
\<close>

definition validIP :: "nat list \<Rightarrow> bool" where
  "validIP ip = (length ip = 16 \<and> list_all (\<lambda>b. b < 256) ip)"

definition groups :: "nat list \<Rightarrow> nat \<Rightarrow> nat \<Rightarrow> nat list" where
  "groups ip a b = map (v6u16 ip) [a..<b]"

definition bytesOf :: "nat list \<Rightarrow> nat list" where
  "bytesOf xs = concat (map (\<lambda>x. [x div 256, x mod 256]) xs)"

definition colonGroups :: "nat list \<Rightarrow> string" where
  "colonGroups xs = concat (map (\<lambda>x. CHR '':'' # appendHex x) xs)"

definition tailText :: "nat list \<Rightarrow> string" where
  "tailText ip =
     (if zeroEnd ip \<ge> 8 then []
      else appendHex (v6u16 ip (zeroEnd ip)) @ colonGroups (groups ip (zeroEnd ip + 1) 8))"

definition dotted :: "nat list \<Rightarrow> string" where
  "dotted fs = concat (map (\<lambda>f. appendDecimal f @ ''.'') fs)"

definition zeroRunOk :: "nat list \<Rightarrow> nat \<Rightarrow> nat \<Rightarrow> bool" where
  "zeroRunOk ip zs ze =
     (zs < 8 \<longrightarrow> zs + 2 \<le> ze \<and> ze \<le> 8 \<and> (\<forall>k. zs \<le> k \<and> k < ze \<longrightarrow> v6u16 ip k = 0))"

definition textChar :: "char \<Rightarrow> bool" where
  "textChar c = (c = CHR '':'' \<or> (\<exists>d<16. c = hexDigit d))"


definition decimalOctet :: "string \<Rightarrow> bool" where
  "decimalOctet f = (f \<in> set (map appendDecimal [0..<256]))"

definition dottedQuad :: "string \<Rightarrow> bool" where
  "dottedQuad t =
     (let fs = Split t (CHR ''.'') in length fs = 4 \<and> list_all decimalOctet fs)"

section \<open>Properties of the string functions\<close>

lemma SplitAcc_not_Nil: "SplitAcc acc sep s \<noteq> []"
  by (induction s arbitrary: acc) auto

lemma Split_not_Nil: "Split s sep \<noteq> []"
  by (simp add: Split_def SplitAcc_not_Nil)

lemma index_length_minus_1: "xs \<noteq> [] \<Longrightarrow> index xs (length xs - 1) = Some (last xs)"
  by (simp add: index_def last_conv_nth)

lemma index_last_Split: "index (Split s sep) (length (Split s sep) - 1) = Some (last (Split s sep))"
  by (rule index_length_minus_1) (rule Split_not_Nil)

lemma last_SplitAcc:
  "\<exists>pre. rev acc @ s = pre @ last (SplitAcc acc sep s)
     \<and> (pre = [] \<or> last pre = sep)
     \<and> (sep \<in> set (last (SplitAcc acc sep s)) \<longleftrightarrow> pre = [] \<and> sep \<in> set acc)"
proof (induction s arbitrary: acc)
  case Nil
  show ?case by (rule exI [of _ "[]"]) simp
next
  case (Cons c cs)
  show ?case
  proof (cases "c = sep")
    case True
    from Cons.IH [of "[]"] obtain pre where
      p: "cs = pre @ last (SplitAcc [] sep cs)" "pre = [] \<or> last pre = sep"
         "sep \<notin> set (last (SplitAcc [] sep cs))"
      by auto
    show ?thesis
      apply (rule exI [of _ "rev acc @ sep # pre"])
      using True p by (auto simp: SplitAcc_not_Nil)
  next
    case False
    from Cons.IH [of "c # acc"] obtain pre where
      p: "rev (c # acc) @ cs = pre @ last (SplitAcc (c # acc) sep cs)" "pre = [] \<or> last pre = sep"
         "sep \<in> set (last (SplitAcc (c # acc) sep cs)) \<longleftrightarrow> pre = [] \<and> sep \<in> set (c # acc)"
      by blast
    show ?thesis
      apply (rule exI [of _ pre])
      using False p by auto
  qed
qed

lemma last_Split:
  "\<exists>pre. s = pre @ last (Split s sep) \<and> (pre = [] \<or> last pre = sep)
     \<and> sep \<notin> set (last (Split s sep))"
  using last_SplitAcc [of "[]" s sep] by (auto simp: Split_def)

lemma TrimSuffix_newline_append: "TrimSuffix (t @ [newline]) [newline] = t"
  by (simp add: TrimSuffix_def HasSuffix_def)

lemma valueRegistered_iff: "valueRegistered records ip \<longleftrightarrow> ip \<in> set (map rr_Value records)"
  by (induction records) auto

lemma tokens_home: "index (FindStringSubmatch ''home.example.com'') 2 = Some ''example.com''"
  by (simp add: FindStringSubmatch_def index_def notPeriod_def newline_def)

lemma upsert_located:
  assumes "index (FindStringSubmatch fqdn) 2 = Some domain"
    and "ListHostedZonesByName dnsClient (zoneLookupInput domain) = Inr resources"
    and "out_HostedZones resources = [zone]"
    and "out_DNSName resources = Some (domain @ ''.'')"
  shows "upsertRoute53Record ip fqdn dnsClient =
           reconcileRecords ip fqdn dnsClient domain (last (Split (zone_Id zone) CHR ''/''))
             [CallListHostedZonesByName (zoneLookupInput domain)]"
  using assms index_last_Split [of "zone_Id zone" "CHR ''/''"]
  by (simp add: upsertRoute53Record_def Let_def)

lemma last_Split_Z999: "last (Split ''/hostedzone/Z999'' CHR ''/'') = ''Z999''"
  by (simp add: Split_def)


section \<open>Digits\<close>

lemma less_16_cases:
  "n < 16 \<Longrightarrow> n \<in> {0, 1, 2, 3, 4, 5, 6, 7, 8, 9, 10, 11, 12, 13, 14, 15::nat}"
  by simp arith

lemma hexVal_hexDigit: "n < 16 \<Longrightarrow> hexVal (hexDigit n) = Some n"
  by (drule less_16_cases) (auto simp: hexVal_def hexDigit_def)

lemma hexDigit_not_special:
  "n < 16 \<Longrightarrow> hexDigit n \<noteq> CHR '':'' \<and> hexDigit n \<noteq> CHR ''.'' \<and> hexDigit n \<noteq> CHR ''%''"
  by (drule less_16_cases) (auto simp: hexDigit_def)

lemma less_10_cases: "n < 10 \<Longrightarrow> n \<in> {0, 1, 2, 3, 4, 5, 6, 7, 8, 9::nat}"
  by simp arith

lemma isDigit_hexDigit: "n < 10 \<Longrightarrow> isDigit (hexDigit n) \<and> of_char (hexDigit n) - 48 = n"
  by (drule less_10_cases) (auto simp: isDigit_def hexDigit_def)

lemma hexVal_special: "hexVal CHR '':'' = None" "hexVal CHR ''.'' = None"
  by (simp_all add: hexVal_def)

lemma isDigit_special: "\<not> isDigit CHR ''.''" "\<not> isDigit CHR '':''"
  by (simp_all add: isDigit_def)

lemma scanHex_stop:
  "rest = [] \<or> hexVal (hd rest) = None \<Longrightarrow> scanHex acc off rest = Some (acc, off, rest)"
  by (cases rest) auto

lemma scanHex_digit:
  "d < 16 \<Longrightarrow> acc * 16 + d \<le> 65535 \<Longrightarrow>
   scanHex acc off (hexDigit d # s) = scanHex (acc * 16 + d) (Suc off) s"
  by (simp add: hexVal_hexDigit)

lemma hex_digits_16: "x div 16 * 16 + x mod 16 = (x::nat)"
  by simp

lemma hex_digits_256: "x div 256 * 16 + x div 16 mod 16 = (x::nat) div 16"
proof -
  have "x div 256 = x div 16 div 16"
    by (simp add: div_mult2_eq)
  then show ?thesis by simp
qed

lemma hex_digits_4096: "x div 4096 * 16 + x div 256 mod 16 = (x::nat) div 256"
proof -
  have "x div 4096 = x div 256 div 16"
    by (simp add: div_mult2_eq)
  then show ?thesis by simp
qed

lemma scanHex_appendHex:
  assumes "x < 65536" and "rest = [] \<or> hexVal (hd rest) = None"
  shows "scanHex 0 0 (appendHex x @ rest) = Some (x, length (appendHex x), rest)"
proof -
  have le: "x \<le> 65535" "x div 16 \<le> 65535" "x div 256 \<le> 65535" "x div 4096 \<le> 65535"
    using assms(1) by simp_all
  have lt: "x mod 16 < 16" "x div 16 mod 16 < 16" "x div 256 mod 16 < 16"
    by simp_all
  consider "x < 16" | "16 \<le> x" "x < 256" | "256 \<le> x" "x < 4096" | "4096 \<le> x"
    by linarith
  then show ?thesis
  proof cases
    case 1
    then show ?thesis
      using assms(2) le
      by (simp add: appendHex_def scanHex_digit scanHex_stop del: scanHex.simps)
  next
    case 2
    then have d: "x div 16 mod 16 = x div 16" "x div 16 < 16"
      by simp_all
    have "scanHex 0 0 (hexDigit (x div 16) # hexDigit (x mod 16) # rest)
            = scanHex (x div 16) (Suc 0) (hexDigit (x mod 16) # rest)"
      using d le by (simp add: scanHex_digit del: scanHex.simps)
    also have "\<dots> = scanHex x (Suc (Suc 0)) rest"
      using lt le by (simp add: scanHex_digit hex_digits_16 del: scanHex.simps)
    finally show ?thesis
      using 2 d assms(2) by (simp add: appendHex_def scanHex_stop del: scanHex.simps)
  next
    case 3
    then have d: "x div 256 mod 16 = x div 256" "x div 256 < 16"
      by simp_all
    have "scanHex 0 0 (hexDigit (x div 256) # hexDigit (x div 16 mod 16) # hexDigit (x mod 16) # rest)
            = scanHex (x div 256) (Suc 0) (hexDigit (x div 16 mod 16) # hexDigit (x mod 16) # rest)"
      using d le by (simp add: scanHex_digit del: scanHex.simps)
    also have "\<dots> = scanHex (x div 16) (Suc (Suc 0)) (hexDigit (x mod 16) # rest)"
      using lt le by (simp add: scanHex_digit hex_digits_256 del: scanHex.simps)
    also have "\<dots> = scanHex x (Suc (Suc (Suc 0))) rest"
      using lt le by (simp add: scanHex_digit hex_digits_16 del: scanHex.simps)
    finally show ?thesis
      using 3 d assms(2) by (simp add: appendHex_def scanHex_stop del: scanHex.simps)
  next
    case 4
    with assms(1) have d: "x div 4096 < 16"
      by simp
    have "scanHex 0 0 (hexDigit (x div 4096) # hexDigit (x div 256 mod 16)
              # hexDigit (x div 16 mod 16) # hexDigit (x mod 16) # rest)
            = scanHex (x div 4096) (Suc 0) (hexDigit (x div 256 mod 16)
              # hexDigit (x div 16 mod 16) # hexDigit (x mod 16) # rest)"
      using d le by (simp add: scanHex_digit del: scanHex.simps)
    also have "\<dots> = scanHex (x div 256) (Suc (Suc 0)) (hexDigit (x div 16 mod 16) # hexDigit (x mod 16) # rest)"
      using lt le by (simp add: scanHex_digit hex_digits_4096 del: scanHex.simps)
    also have "\<dots> = scanHex (x div 16) (Suc (Suc (Suc 0))) (hexDigit (x mod 16) # rest)"
      using lt le by (simp add: scanHex_digit hex_digits_256 del: scanHex.simps)
    also have "\<dots> = scanHex x (Suc (Suc (Suc (Suc 0)))) rest"
      using lt le by (simp add: scanHex_digit hex_digits_16 del: scanHex.simps)
    finally show ?thesis
      using 4 assms(2) by (simp add: appendHex_def scanHex_stop del: scanHex.simps)
  qed
qed

section \<open>The IPv6 parser reads what appendTo6 writes\<close>

subsection \<open>Lists of groups\<close>

lemma colonGroups_simps [simp]:
  "colonGroups [] = []"
  "colonGroups (x # xs) = CHR '':'' # appendHex x @ colonGroups xs"
  "colonGroups (xs @ ys) = colonGroups xs @ colonGroups ys"
  by (simp_all add: colonGroups_def)

lemma bytesOf_simps [simp]:
  "bytesOf [] = []"
  "bytesOf (x # xs) = x div 256 # x mod 256 # bytesOf xs"
  "bytesOf (xs @ ys) = bytesOf xs @ bytesOf ys"
  by (simp_all add: bytesOf_def)

lemma length_bytesOf [simp]: "length (bytesOf xs) = 2 * length xs"
  by (induction xs) simp_all

lemma appendHex_Cons:
  assumes "x < 65536"
  shows "\<exists>d ds. appendHex x = hexDigit d # ds \<and> d < 16"
proof -
  have "x div 4096 < 16" using assms by simp
  moreover have "x div 256 mod 16 < 16" "x div 16 mod 16 < 16" "x mod 16 < 16" by simp_all
  ultimately show ?thesis
    unfolding appendHex_def by (cases "4096 \<le> x"; cases "256 \<le> x"; cases "16 \<le> x") auto
qed

lemma parseIPv6Loop_last_group:
  assumes "length ip < 16" and "x < 65536"
  shows "parseIPv6Loop ip e (appendHex x) = Some (ip @ [x div 256, x mod 256], e, [])"
proof -
  have scan: "scanHex 0 0 (appendHex x) = Some (x, length (appendHex x), [])"
    using scanHex_appendHex [OF assms(2), of "[]"] by simp
  have "length (appendHex x) \<noteq> 0"
    using appendHex_Cons [OF assms(2)] by auto
  then show ?thesis
    using assms(1) by (subst parseIPv6Loop.simps) (simp add: scan)
qed

lemma parseIPv6Loop_group_colon:
  assumes "length ip < 16" and "x < 65536" and "c2 \<noteq> CHR '':''"
  shows "parseIPv6Loop ip e (appendHex x @ CHR '':'' # c2 # cs)
           = parseIPv6Loop (ip @ [x div 256, x mod 256]) e (c2 # cs)"
proof -
  have scan: "scanHex 0 0 (appendHex x @ CHR '':'' # c2 # cs)
                = Some (x, length (appendHex x), CHR '':'' # c2 # cs)"
    by (rule scanHex_appendHex [OF assms(2)]) (simp add: hexVal_special)
  have "length (appendHex x) \<noteq> 0"
    using appendHex_Cons [OF assms(2)] by auto
  then show ?thesis
    using assms(1,3) by (subst parseIPv6Loop.simps) (simp add: scan)
qed

lemma parseIPv6Loop_group_ellipsis:
  assumes "length ip < 16" and "x < 65536"
  shows "parseIPv6Loop ip None (appendHex x @ CHR '':'' # CHR '':'' # tail)
           = (if tail = [] then Some (ip @ [x div 256, x mod 256], Some (length ip + 2), [])
              else parseIPv6Loop (ip @ [x div 256, x mod 256]) (Some (length ip + 2)) tail)"
proof -
  have scan: "scanHex 0 0 (appendHex x @ CHR '':'' # CHR '':'' # tail)
                = Some (x, length (appendHex x), CHR '':'' # CHR '':'' # tail)"
    by (rule scanHex_appendHex [OF assms(2)]) (simp add: hexVal_special)
  have "length (appendHex x) \<noteq> 0"
    using appendHex_Cons [OF assms(2)] by auto
  then show ?thesis
    using assms(1) by (subst parseIPv6Loop.simps) (simp add: scan)
qed

lemma parseIPv6Loop_groups:
  assumes "length ip + 2 * (length xs + 1) \<le> 16" and "x < 65536" and "\<forall>y\<in>set xs. y < 65536"
  shows "parseIPv6Loop ip e (appendHex x @ colonGroups xs) = Some (ip @ bytesOf (x # xs), e, [])"
  using assms
proof (induction xs arbitrary: x ip)
  case Nil
  then show ?case by (simp add: parseIPv6Loop_last_group)
next
  case (Cons y ys)
  from Cons.prems have y: "y < 65536" by simp
  then obtain d ds where h: "appendHex y = hexDigit d # ds" "d < 16"
    using appendHex_Cons by blast
  have len: "length ip < 16" using Cons.prems(1) by simp
  have "parseIPv6Loop ip e (appendHex x @ colonGroups (y # ys))
          = parseIPv6Loop ip e (appendHex x @ CHR '':'' # hexDigit d # (ds @ colonGroups ys))"
    by (simp add: h)
  also have "\<dots> = parseIPv6Loop (ip @ [x div 256, x mod 256]) e (hexDigit d # (ds @ colonGroups ys))"
    using len Cons.prems(2) hexDigit_not_special [OF h(2)] by (simp add: parseIPv6Loop_group_colon)
  also have "\<dots> = parseIPv6Loop (ip @ [x div 256, x mod 256]) e (appendHex y @ colonGroups ys)"
    by (simp add: h)
  also have "\<dots> = Some ((ip @ [x div 256, x mod 256]) @ bytesOf (y # ys), e, [])"
    using Cons.prems by (intro Cons.IH) simp_all
  finally show ?case by simp
qed

lemma parseIPv6Loop_groups_ellipsis:
  assumes "length ip + 2 * (length xs + 1) \<le> 16" and "x < 65536" and "\<forall>y\<in>set xs. y < 65536"
  shows "parseIPv6Loop ip None (appendHex x @ colonGroups xs @ CHR '':'' # CHR '':'' # tail)
           = (if tail = []
              then Some (ip @ bytesOf (x # xs), Some (length ip + 2 * (length xs + 1)), [])
              else parseIPv6Loop (ip @ bytesOf (x # xs))
                     (Some (length ip + 2 * (length xs + 1))) tail)"
  using assms
proof (induction xs arbitrary: x ip)
  case Nil
  then show ?case by (simp add: parseIPv6Loop_group_ellipsis)
next
  case (Cons y ys)
  from Cons.prems have y: "y < 65536" by simp
  then obtain d ds where h: "appendHex y = hexDigit d # ds" "d < 16"
    using appendHex_Cons by blast
  have len: "length ip < 16" using Cons.prems(1) by simp
  let ?END = "CHR '':'' # CHR '':'' # tail"
  have "parseIPv6Loop ip None (appendHex x @ colonGroups (y # ys) @ ?END)
          = parseIPv6Loop ip None (appendHex x @ CHR '':'' # hexDigit d # (ds @ colonGroups ys @ ?END))"
    by (simp add: h)
  also have "\<dots> = parseIPv6Loop (ip @ [x div 256, x mod 256]) None
                       (hexDigit d # (ds @ colonGroups ys @ ?END))"
    using len Cons.prems(2) hexDigit_not_special [OF h(2)] by (simp add: parseIPv6Loop_group_colon)
  also have "\<dots> = parseIPv6Loop (ip @ [x div 256, x mod 256]) None
                       (appendHex y @ colonGroups ys @ ?END)"
    by (simp add: h)
  also have "\<dots> = (if tail = []
              then Some ((ip @ [x div 256, x mod 256]) @ bytesOf (y # ys),
                         Some (length (ip @ [x div 256, x mod 256]) + 2 * (length ys + 1)), [])
              else parseIPv6Loop ((ip @ [x div 256, x mod 256]) @ bytesOf (y # ys))
                     (Some (length (ip @ [x div 256, x mod 256]) + 2 * (length ys + 1))) tail)"
    using Cons.prems by (intro Cons.IH) simp_all
  finally show ?case by simp
qed

subsection \<open>The run of zero groups and the text written\<close>

lemma zeroRunFrom_bounds:
  "i \<le> zeroRunFrom ip i \<and> (i \<le> 8 \<longrightarrow> zeroRunFrom ip i \<le> 8)
   \<and> (\<forall>k. i \<le> k \<and> k < zeroRunFrom ip i \<longrightarrow> v6u16 ip k = 0)"
proof (induction ip i rule: zeroRunFrom.induct)
  case (1 ip j)
  show ?case
  proof (cases "j < 8 \<and> v6u16 ip j = 0")
    case True
    then have eq: "zeroRunFrom ip j = zeroRunFrom ip (j + 1)"
      by (subst zeroRunFrom.simps) simp
    have zero: "v6u16 ip k = 0" if "j \<le> k" "k < zeroRunFrom ip (j + 1)" for k
    proof (cases "k = j")
      case True
      with \<open>j < 8 \<and> v6u16 ip j = 0\<close> show ?thesis by simp
    next
      case False
      with that have "j + 1 \<le> k" by simp
      with "1.IH" [OF \<open>j < 8 \<and> v6u16 ip j = 0\<close>] that(2) show ?thesis by blast
    qed
    from "1.IH" [OF True] True zero show ?thesis
      unfolding eq by auto
  next
    case False
    then have "zeroRunFrom ip j = j"
      by (subst zeroRunFrom.simps) auto
    then show ?thesis by simp
  qed
qed

lemma findZeroRun_ok:
  "zeroRunOk ip zs ze \<Longrightarrow>
   zeroRunOk ip (fst (findZeroRun ip zs ze i)) (snd (findZeroRun ip zs ze i))"
proof (induction ip zs ze i rule: findZeroRun.induct)
  case (1 ip zeroStart zeroEnd i)
  show ?case
  proof (cases "i < 8")
    case False
    then have "findZeroRun ip zeroStart zeroEnd i = (zeroStart, zeroEnd)"
      by (subst findZeroRun.simps) simp
    with "1.prems" show ?thesis by simp
  next
    case True
    show ?thesis
    proof (cases "zeroRunFrom ip i - i \<ge> 2 \<and> zeroRunFrom ip i - i > zeroEnd - zeroStart")
      case yes: True
      then have eq: "findZeroRun ip zeroStart zeroEnd i = findZeroRun ip i (zeroRunFrom ip i) (i + 1)"
        using True by (subst findZeroRun.simps) (simp add: Let_def)
      have "zeroRunOk ip i (zeroRunFrom ip i)"
        using yes True zeroRunFrom_bounds [of i ip] by (auto simp: zeroRunOk_def)
      with "1.IH"(1) [OF True refl refl yes] show ?thesis
        unfolding eq by blast
    next
      case no: False
      then have eq: "findZeroRun ip zeroStart zeroEnd i = findZeroRun ip zeroStart zeroEnd (i + 1)"
        using True by (subst findZeroRun.simps) (auto simp: Let_def)
      from "1.IH"(2) [OF True refl refl no] "1.prems" show ?thesis
        unfolding eq by blast
    qed
  qed
qed

lemma zeroRun_found:
  assumes "zeroStart ip < 8"
  shows "zeroStart ip + 2 \<le> zeroEnd ip" and "zeroEnd ip \<le> 8"
    and "\<And>k. zeroStart ip \<le> k \<Longrightarrow> k < zeroEnd ip \<Longrightarrow> v6u16 ip k = 0"
proof -
  have "zeroRunOk ip 255 255" by (simp add: zeroRunOk_def)
  then have "zeroRunOk ip (zeroStart ip) (zeroEnd ip)"
    unfolding zeroStart_def zeroEnd_def by (rule findZeroRun_ok)
  with assms show "zeroStart ip + 2 \<le> zeroEnd ip" "zeroEnd ip \<le> 8"
    "\<And>k. zeroStart ip \<le> k \<Longrightarrow> k < zeroEnd ip \<Longrightarrow> v6u16 ip k = 0"
    by (auto simp: zeroRunOk_def)
qed

lemma groups_simps:
  "b \<le> a \<Longrightarrow> groups ip a b = []"
  "a < b \<Longrightarrow> groups ip a b = v6u16 ip a # groups ip (Suc a) b"
  by (simp_all add: groups_def upt_conv_Cons)

lemma groups_append: "a \<le> b \<Longrightarrow> b \<le> c \<Longrightarrow> groups ip a c = groups ip a b @ groups ip b c"
  unfolding groups_def map_append [symmetric]
  by (metis le_Suc_ex upt_add_eq_append)

lemma length_groups [simp]: "length (groups ip a b) = b - a"
  by (simp add: groups_def)

lemma appendTo6Loop_after:
  assumes "1 \<le> i" and "zeroStart ip < i \<or> 8 \<le> zeroStart ip"
  shows "appendTo6Loop ip i = colonGroups (groups ip i 8)"
  using assms
proof (induction "8 - i" arbitrary: i)
  case 0
  then have "8 \<le> i" by simp
  then show ?case
    by (subst appendTo6Loop.simps) (simp add: groups_simps)
next
  case (Suc n)
  then have i: "i < 8" "i \<noteq> zeroStart ip" "0 < i" by auto
  have "appendTo6Loop ip i = CHR '':'' # appendHex (v6u16 ip i) @ appendTo6Loop ip (i + 1)"
    using i by (subst appendTo6Loop.simps) simp
  also have "appendTo6Loop ip (i + 1) = colonGroups (groups ip (i + 1) 8)"
    using Suc by (intro Suc.hyps(1)) auto
  finally show ?case
    using i by (simp add: groups_simps)
qed

lemma appendTo6Loop_at_zeroStart:
  assumes "zeroStart ip < 8"
  shows "appendTo6Loop ip (zeroStart ip) = ''::'' @ tailText ip"
proof -
  have lt: "zeroStart ip < zeroEnd ip + 1"
    using zeroRun_found(1) [OF assms] by simp
  have "appendTo6Loop ip (zeroEnd ip + 1) = colonGroups (groups ip (zeroEnd ip + 1) 8)"
    using lt by (intro appendTo6Loop_after) auto
  then show ?thesis
    using assms by (subst appendTo6Loop.simps) (simp add: tailText_def)
qed

lemma appendTo6Loop_before:
  assumes "1 \<le> i" and "i \<le> zeroStart ip" and "zeroStart ip < 8"
  shows "appendTo6Loop ip i = colonGroups (groups ip i (zeroStart ip)) @ ''::'' @ tailText ip"
  using assms
proof (induction "zeroStart ip - i" arbitrary: i)
  case 0
  then have "i = zeroStart ip" by simp
  then show ?case
    using appendTo6Loop_at_zeroStart [OF "0.prems"(3)] by (simp add: groups_simps)
next
  case (Suc n)
  then have i: "i < zeroStart ip" "i < 8" "0 < i" by auto
  have "appendTo6Loop ip i = CHR '':'' # appendHex (v6u16 ip i) @ appendTo6Loop ip (i + 1)"
    using i by (subst appendTo6Loop.simps) simp
  also have "appendTo6Loop ip (i + 1)
               = colonGroups (groups ip (i + 1) (zeroStart ip)) @ ''::'' @ tailText ip"
    using Suc by (intro Suc.hyps(1)) auto
  finally show ?case
    using i by (simp add: groups_simps)
qed

lemma string6_cases:
  "string6 ip =
     (if zeroStart ip = 0 then ''::'' @ tailText ip
      else if zeroStart ip < 8
      then appendHex (v6u16 ip 0) @ colonGroups (groups ip 1 (zeroStart ip)) @ ''::'' @ tailText ip
      else appendHex (v6u16 ip 0) @ colonGroups (groups ip 1 8))"
proof (cases "zeroStart ip = 0")
  case True
  then show ?thesis
    using appendTo6Loop_at_zeroStart [of ip] by (simp add: string6_def)
next
  case False
  have first: "appendTo6Loop ip 0 = appendHex (v6u16 ip 0) @ appendTo6Loop ip 1"
    using False by (subst appendTo6Loop.simps) auto
  show ?thesis
  proof (cases "zeroStart ip < 8")
    case True
    then show ?thesis
      using False first appendTo6Loop_before [of 1 ip] by (simp add: string6_def)
  next
    case ge: False
    then show ?thesis
      using False first appendTo6Loop_after [of 1 ip] by (simp add: string6_def)
  qed
qed

subsection \<open>Bytes and groups\<close>

lemma v6u16_Cons: "v6u16 (a # b # bs) (Suc k) = v6u16 bs k"
  by (simp add: v6u16_def)

lemma bytesOf_v6u16:
  "list_all (\<lambda>b. b < 256) bs \<Longrightarrow> length bs = 2 * n \<Longrightarrow> bytesOf (map (v6u16 bs) [0..<n]) = bs"
proof (induction n arbitrary: bs)
  case 0
  then show ?case by simp
next
  case (Suc n)
  then obtain a b bs' where bs: "bs = a # b # bs'"
    by (cases bs; cases "tl bs") auto
  with Suc.prems have ab: "a < 256" "b < 256" and rest: "list_all (\<lambda>b. b < 256) bs'" "length bs' = 2 * n"
    by auto
  have "map (v6u16 bs) [0..<Suc n] = v6u16 bs 0 # map (\<lambda>k. v6u16 bs (Suc k)) [0..<n]"
    by (rule map_upt_Suc)
  also have "\<dots> = (a * 256 + b) # map (v6u16 bs') [0..<n]"
    by (simp add: bs v6u16_Cons) (simp add: v6u16_def)
  finally show ?case
    using ab Suc.IH [OF rest] by (simp add: bs)
qed

lemma bytesOf_groups: "validIP ip \<Longrightarrow> bytesOf (groups ip 0 8) = ip"
  unfolding groups_def validIP_def by (intro bytesOf_v6u16) auto

lemma v6u16_less:
  assumes "validIP ip" and "k < 8"
  shows "v6u16 ip k < 65536"
proof -
  have "2 * k < length ip" "2 * k + 1 < length ip"
    using assms by (auto simp: validIP_def)
  then have "ip ! (2 * k) < 256" "ip ! (2 * k + 1) < 256"
    using assms(1) by (auto simp: validIP_def list_all_length)
  then show ?thesis
    by (simp add: v6u16_def)
qed

lemma groups_less: "validIP ip \<Longrightarrow> b \<le> 8 \<Longrightarrow> \<forall>y\<in>set (groups ip a b). y < 65536"
  by (auto simp: groups_def v6u16_less)

lemma groups_zero:
  "(\<And>k. a \<le> k \<Longrightarrow> k < b \<Longrightarrow> v6u16 ip k = 0) \<Longrightarrow> groups ip a b = replicate (b - a) 0"
  by (auto simp: groups_def intro!: nth_equalityI)

lemma bytesOf_replicate_zero: "bytesOf (replicate n 0) = replicate (2 * n) 0"
  by (induction n) simp_all

lemma zero_run_bytes:
  assumes "zeroStart ip < 8"
  shows "bytesOf (groups ip (zeroStart ip) (zeroEnd ip))
           = replicate (2 * (zeroEnd ip - zeroStart ip)) 0"
proof -
  have "groups ip (zeroStart ip) (zeroEnd ip) = replicate (zeroEnd ip - zeroStart ip) 0"
    by (rule groups_zero) (rule zeroRun_found(3) [OF assms])
  then show ?thesis by (simp add: bytesOf_replicate_zero)
qed

lemma ip_split:
  assumes "validIP ip" and "zeroStart ip < 8"
  shows "ip = bytesOf (groups ip 0 (zeroStart ip))
              @ replicate (2 * (zeroEnd ip - zeroStart ip)) 0
              @ bytesOf (groups ip (zeroEnd ip) 8)"
proof -
  have le: "zeroStart ip \<le> zeroEnd ip" "zeroEnd ip \<le> 8"
    using zeroRun_found(1,2) [OF assms(2)] by simp_all
  have "groups ip 0 8 = groups ip 0 (zeroStart ip) @ groups ip (zeroStart ip) 8"
    using le by (intro groups_append) simp_all
  also have "groups ip (zeroStart ip) 8
               = groups ip (zeroStart ip) (zeroEnd ip) @ groups ip (zeroEnd ip) 8"
    using le by (intro groups_append) simp_all
  finally have "bytesOf (groups ip 0 8)
      = bytesOf (groups ip 0 (zeroStart ip)) @ bytesOf (groups ip (zeroStart ip) (zeroEnd ip))
          @ bytesOf (groups ip (zeroEnd ip) 8)"
    by simp
  then show ?thesis
    by (simp only: bytesOf_groups [OF assms(1)] zero_run_bytes [OF assms(2)])
qed

lemma textChar_hexDigit: "d < 16 \<Longrightarrow> textChar (hexDigit d)"
  unfolding textChar_def by blast

lemma textChar_not_percent: "textChar c \<Longrightarrow> c \<noteq> CHR ''%''"
  by (auto simp: textChar_def dest: hexDigit_not_special)

lemma appendHex_textChar: "x < 65536 \<Longrightarrow> list_all textChar (appendHex x)"
proof -
  assume "x < 65536"
  then have "x div 4096 < 16" by simp
  moreover have "x div 256 mod 16 < 16" "x div 16 mod 16 < 16" "x mod 16 < 16" by simp_all
  ultimately show ?thesis
    using \<open>x < 65536\<close> by (simp add: appendHex_def textChar_hexDigit)
qed

lemma colonGroups_textChar: "\<forall>y\<in>set xs. y < 65536 \<Longrightarrow> list_all textChar (colonGroups xs)"
  by (induction xs) (simp_all add: appendHex_textChar textChar_def)

subsection \<open>Parsing the text of an address\<close>

lemma no_percent:
  assumes "CHR ''%'' \<notin> set s"
  shows "takeWhile notPercent s = s" and "dropWhile notPercent s = []"
  using assms by (auto simp: notPercent_def takeWhile_eq_all_conv)

lemma parseIPv6_plain:
  assumes "CHR ''%'' \<notin> set s" and "s \<noteq> []" and "hd s \<noteq> CHR '':''"
  shows "parseIPv6 s = parseIPv6End [] (parseIPv6Loop [] None s)"
proof -
  from assms(2,3) have "s ! 0 \<noteq> CHR '':''"
    by (cases s) simp_all
  then show ?thesis
    unfolding parseIPv6_def no_percent [OF assms(1)]
    by (simp add: Let_def)
qed

lemma parseIPv6_leading:
  assumes "CHR ''%'' \<notin> set t"
  shows "parseIPv6 (CHR '':'' # CHR '':'' # t)
           = (if t = [] then Some (Addr6 (replicate 16 0) [])
              else parseIPv6End [] (parseIPv6Loop [] (Some 0) t))"
proof -
  have "CHR ''%'' \<notin> set (CHR '':'' # CHR '':'' # t)"
    using assms by simp
  note np = no_percent [OF this]
  show ?thesis
    unfolding parseIPv6_def np by (simp add: Let_def)
qed

lemma tailText_parse:
  assumes "validIP ip" and "zeroStart ip < 8" and "zeroEnd ip < 8" and "length pre = 2 * zeroStart ip"
  shows "parseIPv6Loop pre e (tailText ip) = Some (pre @ bytesOf (groups ip (zeroEnd ip) 8), e, [])"
proof -
  have ze: "zeroStart ip + 2 \<le> zeroEnd ip"
    by (rule zeroRun_found(1) [OF assms(2)])
  have g: "groups ip (zeroEnd ip) 8 = v6u16 ip (zeroEnd ip) # groups ip (zeroEnd ip + 1) 8"
    using assms(3) by (simp add: groups_simps)
  have "parseIPv6Loop pre e (appendHex (v6u16 ip (zeroEnd ip)) @ colonGroups (groups ip (zeroEnd ip + 1) 8))
          = Some (pre @ bytesOf (v6u16 ip (zeroEnd ip) # groups ip (zeroEnd ip + 1) 8), e, [])"
  proof (rule parseIPv6Loop_groups)
    show "length pre + 2 * (length (groups ip (zeroEnd ip + 1) 8) + 1) \<le> 16"
      using assms(3,4) ze by simp
    show "v6u16 ip (zeroEnd ip) < 65536"
      by (rule v6u16_less [OF assms(1,3)])
    show "\<forall>y\<in>set (groups ip (zeroEnd ip + 1) 8). y < 65536"
      by (rule groups_less [OF assms(1)]) simp
  qed
  then show ?thesis
    using assms(3) by (simp add: tailText_def g)
qed

lemma tailText_empty: "tailText ip = [] \<longleftrightarrow> 8 \<le> zeroEnd ip"
proof
  assume "tailText ip = []"
  show "8 \<le> zeroEnd ip"
  proof (rule ccontr)
    assume "\<not> 8 \<le> zeroEnd ip"
    with \<open>tailText ip = []\<close> have "appendHex (v6u16 ip (zeroEnd ip)) = []"
      by (simp add: tailText_def)
    then show False by (simp add: appendHex_def)
  qed
qed (simp add: tailText_def)

lemma groups_textChar:
  "validIP ip \<Longrightarrow> b \<le> 8 \<Longrightarrow> list_all textChar (colonGroups (groups ip a b))"
  by (intro colonGroups_textChar groups_less) simp_all

lemma tailText_textChar: "validIP ip \<Longrightarrow> list_all textChar (tailText ip)"
  by (simp add: tailText_def appendHex_textChar v6u16_less groups_textChar)

lemma list_all_textChar_no_percent: "list_all textChar s \<Longrightarrow> CHR ''%'' \<notin> set s"
  by (auto simp: list_all_iff dest: textChar_not_percent)

lemma parseIPv6_string6:
  assumes "validIP ip"
  shows "parseIPv6 (string6 ip) = Some (Addr6 ip [])"
proof -
  consider (leading) "zeroStart ip = 0" | (middle) "0 < zeroStart ip" "zeroStart ip < 8"
    | (none) "8 \<le> zeroStart ip"
    by linarith
  then show ?thesis
  proof cases
    case leading
    then have zs: "zeroStart ip < 8" by simp
    note run = zeroRun_found [OF zs]
    have split: "ip = replicate (2 * zeroEnd ip) 0 @ bytesOf (groups ip (zeroEnd ip) 8)"
      using ip_split [OF assms zs] leading by (simp add: groups_simps)
    have s: "string6 ip = CHR '':'' # CHR '':'' # tailText ip"
      using leading by (simp add: string6_cases)
    have np: "CHR ''%'' \<notin> set (tailText ip)"
      by (intro list_all_textChar_no_percent tailText_textChar assms)
    show ?thesis
    proof (cases "8 \<le> zeroEnd ip")
      case True
      with run(2) have "zeroEnd ip = 8" by simp
      with split have "ip = replicate 16 0"
        by (simp add: groups_simps)
      then show ?thesis
        using True tailText_empty [of ip] unfolding s parseIPv6_leading [OF np] by simp
    next
      case False
      then have lt: "zeroEnd ip < 8" by simp
      have "parseIPv6Loop [] (Some 0) (tailText ip)
              = Some ([] @ bytesOf (groups ip (zeroEnd ip) 8), Some 0, [])"
        using leading by (intro tailText_parse [OF assms zs lt]) simp
      moreover have "16 - 2 * (8 - zeroEnd ip) = 2 * zeroEnd ip"
        using lt by simp
      moreover have "8 - zeroEnd ip < 8"
        using run(1) lt by simp
      ultimately show ?thesis
        using False lt tailText_empty [of ip] split
        unfolding s parseIPv6_leading [OF np] by (simp add: parseIPv6End_def)
    qed
  next
    case middle
    note zs = middle(2)
    note run = zeroRun_found [OF zs]
    let ?H = "bytesOf (groups ip 0 (zeroStart ip))"
    let ?T = "bytesOf (groups ip (zeroEnd ip) 8)"
    have split: "ip = ?H @ replicate (2 * (zeroEnd ip - zeroStart ip)) 0 @ ?T"
      by (rule ip_split [OF assms zs])
    have g0: "groups ip 0 (zeroStart ip) = v6u16 ip 0 # groups ip 1 (zeroStart ip)"
      using middle(1) by (simp add: groups_simps)
    obtain d ds where h: "appendHex (v6u16 ip 0) = hexDigit d # ds" "d < 16"
      using appendHex_Cons [OF v6u16_less [OF assms, of 0]] by auto
    have s: "string6 ip = appendHex (v6u16 ip 0) @ colonGroups (groups ip 1 (zeroStart ip))
                            @ CHR '':'' # CHR '':'' # tailText ip"
      using middle by (simp add: string6_cases)
    have "list_all textChar (string6 ip)"
      unfolding s using assms zs
      by (simp add: appendHex_textChar v6u16_less groups_textChar
          tailText_textChar textChar_def)
    then have np: "CHR ''%'' \<notin> set (string6 ip)"
      by (rule list_all_textChar_no_percent)
    have plain: "parseIPv6 (string6 ip) = parseIPv6End [] (parseIPv6Loop [] None (string6 ip))"
      using np
    proof (rule parseIPv6_plain)
      show "string6 ip \<noteq> []" by (simp add: s h(1))
      show "hd (string6 ip) \<noteq> CHR '':''"
        using hexDigit_not_special [OF h(2)] by (simp add: s h(1))
    qed
    have loop: "parseIPv6Loop [] None (string6 ip)
            = (if tailText ip = []
               then Some ([] @ bytesOf (v6u16 ip 0 # groups ip 1 (zeroStart ip)),
                          Some (length ([]::nat list) + 2 * (length (groups ip 1 (zeroStart ip)) + 1)), [])
               else parseIPv6Loop ([] @ bytesOf (v6u16 ip 0 # groups ip 1 (zeroStart ip)))
                      (Some (length ([]::nat list) + 2 * (length (groups ip 1 (zeroStart ip)) + 1)))
                      (tailText ip))"
      unfolding s
    proof (rule parseIPv6Loop_groups_ellipsis)
      show "length ([]::nat list) + 2 * (length (groups ip 1 (zeroStart ip)) + 1) \<le> 16"
        using zs by simp
      show "v6u16 ip 0 < 65536"
        by (rule v6u16_less [OF assms]) simp
      show "\<forall>y\<in>set (groups ip 1 (zeroStart ip)). y < 65536"
        using zs by (intro groups_less [OF assms]) simp
    qed
    have e: "2 * (length (groups ip 1 (zeroStart ip)) + 1) = 2 * zeroStart ip"
      using middle(1) by simp
    have loop': "parseIPv6Loop [] None (string6 ip)
            = (if tailText ip = [] then Some (?H, Some (2 * zeroStart ip), [])
               else parseIPv6Loop ?H (Some (2 * zeroStart ip)) (tailText ip))"
      using loop e by (simp add: g0)
    show ?thesis
    proof (cases "8 \<le> zeroEnd ip")
      case True
      with run(2) have ze: "zeroEnd ip = 8" by simp
      have n: "16 - 2 * zeroStart ip = 2 * (8 - zeroStart ip)"
        by simp
      have "ip = ?H @ replicate (16 - 2 * zeroStart ip) 0"
        unfolding n using split by (simp add: ze groups_simps)
      then show ?thesis
        using True zs tailText_empty [of ip] unfolding plain loop'
        by (simp add: parseIPv6End_def)
    next
      case False
      then have lt: "zeroEnd ip < 8" by simp
      have t: "parseIPv6Loop ?H (Some (2 * zeroStart ip)) (tailText ip)
              = Some (?H @ ?T, Some (2 * zeroStart ip), [])"
        by (intro tailText_parse [OF assms zs lt]) simp
      have "16 - (2 * zeroStart ip + 2 * (8 - zeroEnd ip)) = 2 * (zeroEnd ip - zeroStart ip)"
        using lt run(1) by simp
      moreover have "2 * zeroStart ip + 2 * (8 - zeroEnd ip) < 16"
        using lt run(1) by simp
      ultimately show ?thesis
        using False tailText_empty [of ip] split unfolding plain loop' t
        by (simp add: parseIPv6End_def)
    qed
  next
    case none
    obtain d ds where h: "appendHex (v6u16 ip 0) = hexDigit d # ds" "d < 16"
      using appendHex_Cons [OF v6u16_less [OF assms, of 0]] by auto
    have s: "string6 ip = appendHex (v6u16 ip 0) @ colonGroups (groups ip 1 8)"
      using none by (simp add: string6_cases)
    have "list_all textChar (string6 ip)"
      unfolding s using assms
      by (simp add: appendHex_textChar v6u16_less groups_textChar)
    then have np: "CHR ''%'' \<notin> set (string6 ip)"
      by (rule list_all_textChar_no_percent)
    have plain: "parseIPv6 (string6 ip) = parseIPv6End [] (parseIPv6Loop [] None (string6 ip))"
      using np
    proof (rule parseIPv6_plain)
      show "string6 ip \<noteq> []" by (simp add: s h(1))
      show "hd (string6 ip) \<noteq> CHR '':''"
        using hexDigit_not_special [OF h(2)] by (simp add: s h(1))
    qed
    have g: "v6u16 ip 0 # groups ip 1 8 = groups ip 0 8"
      by (simp add: groups_simps)
    have "parseIPv6Loop [] None (string6 ip)
            = Some ([] @ bytesOf (v6u16 ip 0 # groups ip 1 8), None, [])"
      unfolding s
    proof (rule parseIPv6Loop_groups)
      show "length ([]::nat list) + 2 * (length (groups ip 1 8) + 1) \<le> 16"
        by simp
      show "v6u16 ip 0 < 65536"
        by (rule v6u16_less [OF assms]) simp
      show "\<forall>y\<in>set (groups ip 1 8). y < 65536"
        by (intro groups_less [OF assms]) simp
    qed
    then have "parseIPv6Loop [] None (string6 ip) = Some (ip, None, [])"
      unfolding g bytesOf_groups [OF assms] by simp
    then show ?thesis
      using assms unfolding plain by (simp add: parseIPv6End_def validIP_def)
  qed
qed

section \<open>The IPv4 parser reads what appendTo4 writes\<close>

lemma parseIPv4Loop_digit:
  assumes "d < 10" and "\<not> (digLen = 1 \<and> val = 0)" and "val * 10 + d \<le> 255"
  shows "parseIPv4Loop fs val digLen prev (hexDigit d # cs)
           = parseIPv4Loop fs (val * 10 + d) (Suc digLen) (Some (hexDigit d)) cs"
  using assms isDigit_hexDigit [OF assms(1)] by (auto simp: Let_def)

lemma dec_digits_10: "x div 10 * 10 + x mod 10 = (x::nat)"
  by simp

lemma dec_digits_100: "x div 100 * 10 + x div 10 mod 10 = (x::nat) div 10"
proof -
  have "x div 100 = x div 10 div 10"
    by (simp add: div_mult2_eq)
  then show ?thesis by simp
qed

lemma parseIPv4Loop_appendDecimal:
  assumes "a < 256"
  shows "parseIPv4Loop fs 0 0 prev (appendDecimal a @ rest)
           = parseIPv4Loop fs a (length (appendDecimal a)) (Some (hexDigit (a mod 10))) rest"
proof -
  have lt: "a mod 10 < 10" "a div 10 mod 10 < 10" by simp_all
  have le: "a \<le> 255" "a div 10 \<le> 255" using assms by simp_all
  consider "a < 10" | "10 \<le> a" "a < 100" | "100 \<le> a"
    by linarith
  then show ?thesis
  proof cases
    case 1
    then show ?thesis
      using le by (simp add: appendDecimal_def parseIPv4Loop_digit del: parseIPv4Loop.simps)
  next
    case 2
    then have d: "a div 10 mod 10 = a div 10" "a div 10 < 10" "a div 10 \<noteq> 0"
      by simp_all
    have "parseIPv4Loop fs 0 0 prev (hexDigit (a div 10) # hexDigit (a mod 10) # rest)
            = parseIPv4Loop fs (a div 10) (Suc 0) (Some (hexDigit (a div 10)))
                (hexDigit (a mod 10) # rest)"
      using d le by (simp add: parseIPv4Loop_digit del: parseIPv4Loop.simps)
    also have "\<dots> = parseIPv4Loop fs a (Suc (Suc 0)) (Some (hexDigit (a mod 10))) rest"
      using d lt le by (simp add: parseIPv4Loop_digit dec_digits_10 del: parseIPv4Loop.simps)
    finally show ?thesis
      using 2 d by (simp add: appendDecimal_def del: parseIPv4Loop.simps)
  next
    case 3
    with assms have d: "a div 100 < 10" "a div 100 \<noteq> 0" "a div 100 \<le> 255"
      by simp_all
    have "parseIPv4Loop fs 0 0 prev
            (hexDigit (a div 100) # hexDigit (a div 10 mod 10) # hexDigit (a mod 10) # rest)
            = parseIPv4Loop fs (a div 100) (Suc 0) (Some (hexDigit (a div 100)))
                (hexDigit (a div 10 mod 10) # hexDigit (a mod 10) # rest)"
      using d by (simp add: parseIPv4Loop_digit del: parseIPv4Loop.simps)
    also have "\<dots> = parseIPv4Loop fs (a div 10) (Suc (Suc 0))
                (Some (hexDigit (a div 10 mod 10))) (hexDigit (a mod 10) # rest)"
      using d lt le by (simp add: parseIPv4Loop_digit dec_digits_100 del: parseIPv4Loop.simps)
    also have "\<dots> = parseIPv4Loop fs a (Suc (Suc (Suc 0))) (Some (hexDigit (a mod 10))) rest"
      using lt le by (simp add: parseIPv4Loop_digit dec_digits_10 del: parseIPv4Loop.simps)
    finally show ?thesis
      using 3 by (simp add: appendDecimal_def del: parseIPv4Loop.simps)
  qed
qed

lemma hexDigit_mod_10_not_period: "hexDigit (a mod 10) \<noteq> CHR ''.''"
  using hexDigit_not_special [of "a mod 10"] by simp

lemma appendDecimal_not_Nil: "appendDecimal a \<noteq> []"
  by (simp add: appendDecimal_def)

lemma parseIPv4Loop_field_dot:
  assumes "a < 256" and "length fs < 3" and "rest \<noteq> []"
  shows "parseIPv4Loop fs 0 0 prev (appendDecimal a @ CHR ''.'' # rest)
           = parseIPv4Loop (fs @ [a]) 0 0 (Some CHR ''.'') rest"
  unfolding parseIPv4Loop_appendDecimal [OF assms(1)]
  using assms(2,3) hexDigit_mod_10_not_period [of a] by (simp add: isDigit_special)

lemma parseIPv4_string4:
  assumes "a < 256" "b < 256" "c < 256" "d < 256"
  shows "parseIPv4 (string4 [a, b, c, d]) = Some [a, b, c, d]"
proof -
  have ne: "appendDecimal x @ s \<noteq> []" for x s
    by (simp add: appendDecimal_not_Nil)
  have "parseIPv4 (string4 [a, b, c, d])
          = parseIPv4Loop [] 0 0 None
              (appendDecimal a @ CHR ''.'' # (appendDecimal b @ CHR ''.''
                 # (appendDecimal c @ CHR ''.'' # (appendDecimal d @ []))))"
    by (simp add: parseIPv4_def string4_def)
  also have "\<dots> = parseIPv4Loop ([] @ [a]) 0 0 (Some CHR ''.'')
              (appendDecimal b @ CHR ''.'' # (appendDecimal c @ CHR ''.'' # (appendDecimal d @ [])))"
    by (rule parseIPv4Loop_field_dot [OF assms(1)]) (simp_all add: ne)
  also have "\<dots> = parseIPv4Loop (([] @ [a]) @ [b]) 0 0 (Some CHR ''.'')
              (appendDecimal c @ CHR ''.'' # (appendDecimal d @ []))"
    by (rule parseIPv4Loop_field_dot [OF assms(2)]) (simp_all add: ne)
  also have "\<dots> = parseIPv4Loop ((([] @ [a]) @ [b]) @ [c]) 0 0 (Some CHR ''.'')
              (appendDecimal d @ [])"
    by (rule parseIPv4Loop_field_dot [OF assms(3)]) (simp_all add: appendDecimal_not_Nil)
  also have "\<dots> = Some [a, b, c, d]"
    unfolding parseIPv4Loop_appendDecimal [OF assms(4)] by simp
  finally show ?thesis .
qed

lemma ParseAddrLoop_period:
  assumes "\<forall>c\<in>set ds. c \<noteq> CHR ''.'' \<and> c \<noteq> CHR '':'' \<and> c \<noteq> CHR ''%''"
  shows "ParseAddrLoop s (ds @ CHR ''.'' # rest) = map_option Addr4 (parseIPv4 s)"
  using assms by (induction ds) simp_all

lemma ParseAddrLoop_colon:
  assumes "\<forall>c\<in>set ds. c \<noteq> CHR ''.'' \<and> c \<noteq> CHR '':'' \<and> c \<noteq> CHR ''%''"
  shows "ParseAddrLoop s (ds @ CHR '':'' # rest) = parseIPv6 s"
  using assms by (induction ds) simp_all

lemma appendDecimal_not_special:
  "a < 256 \<Longrightarrow> \<forall>c\<in>set (appendDecimal a). c \<noteq> CHR ''.'' \<and> c \<noteq> CHR '':'' \<and> c \<noteq> CHR ''%''"
proof -
  assume "a < 256"
  then have "a div 100 < 16" "a div 10 mod 10 < 16" "a mod 10 < 16"
    by simp_all
  then show ?thesis
    using hexDigit_not_special [of "a div 100"] hexDigit_not_special [of "a div 10 mod 10"]
      hexDigit_not_special [of "a mod 10"]
    by (auto simp: appendDecimal_def)
qed

lemma appendHex_not_special:
  "x < 65536 \<Longrightarrow> \<forall>c\<in>set (appendHex x). c \<noteq> CHR ''.'' \<and> c \<noteq> CHR '':'' \<and> c \<noteq> CHR ''%''"
proof -
  assume "x < 65536"
  then have "x div 4096 < 16" "x div 256 mod 16 < 16" "x div 16 mod 16 < 16" "x mod 16 < 16"
    by simp_all
  then show ?thesis
    using hexDigit_not_special [of "x div 4096"] hexDigit_not_special [of "x div 256 mod 16"]
      hexDigit_not_special [of "x div 16 mod 16"] hexDigit_not_special [of "x mod 16"]
    by (auto simp: appendHex_def)
qed

lemma ParseAddr_string4:
  assumes "a < 256" "b < 256" "c < 256" "d < 256"
  shows "ParseAddr (string4 [a, b, c, d]) = Some (Addr4 [a, b, c, d])"
proof -
  have "string4 [a, b, c, d] = appendDecimal a @ CHR ''.'' #
          (appendDecimal b @ ''.'' @ appendDecimal c @ ''.'' @ appendDecimal d)"
    by (simp add: string4_def)
  then have "ParseAddrLoop (string4 [a, b, c, d]) (string4 [a, b, c, d])
               = map_option Addr4 (parseIPv4 (string4 [a, b, c, d]))"
    using ParseAddrLoop_period [OF appendDecimal_not_special [OF assms(1)]] by metis
  then show ?thesis
    by (simp add: ParseAddr_def parseIPv4_string4 [OF assms])
qed

lemma ParseAddr_string6:
  assumes "validIP ip"
  shows "ParseAddr (string6 ip) = Some (Addr6 ip [])"
proof -
  have "\<exists>ds rest. string6 ip = ds @ CHR '':'' # rest
          \<and> (\<forall>c\<in>set ds. c \<noteq> CHR ''.'' \<and> c \<noteq> CHR '':'' \<and> c \<noteq> CHR ''%'')"
  proof (cases "zeroStart ip = 0")
    case True
    then have "string6 ip = [] @ CHR '':'' # (CHR '':'' # tailText ip)"
      by (simp add: string6_cases)
    then show ?thesis by (metis empty_iff empty_set)
  next
    case False
    have ns: "\<forall>c\<in>set (appendHex (v6u16 ip 0)). c \<noteq> CHR ''.'' \<and> c \<noteq> CHR '':'' \<and> c \<noteq> CHR ''%''"
      by (intro appendHex_not_special v6u16_less [OF assms]) simp
    show ?thesis
    proof (cases "zeroStart ip < 8")
      case True
      then have "string6 ip = appendHex (v6u16 ip 0) @ CHR '':'' #
          (if zeroStart ip = 1 then CHR '':'' # tailText ip
           else appendHex (v6u16 ip 1) @ colonGroups (groups ip 2 (zeroStart ip)) @ ''::'' @ tailText ip)"
        using False by (auto simp: string6_cases groups_simps numeral_2_eq_2)
      with ns show ?thesis by blast
    next
      case ge: False
      then have "string6 ip = appendHex (v6u16 ip 0) @ CHR '':'' #
          (appendHex (v6u16 ip 1) @ colonGroups (groups ip 2 8))"
        using False by (simp add: string6_cases groups_simps numeral_2_eq_2)
      with ns show ?thesis by blast
    qed
  qed
  then obtain ds rest where "string6 ip = ds @ CHR '':'' # rest"
    "\<forall>c\<in>set ds. c \<noteq> CHR ''.'' \<and> c \<noteq> CHR '':'' \<and> c \<noteq> CHR ''%''"
    by blast
  then have "ParseAddrLoop (string6 ip) (string6 ip) = parseIPv6 (string6 ip)"
    using ParseAddrLoop_colon by metis
  then show ?thesis
    by (simp add: ParseAddr_def parseIPv6_string6 [OF assms])
qed

lemma To4_Some:
  assumes "validIP ip" and "To4 ip = Some p4"
  shows "ip = replicate 10 0 @ [255, 255] @ p4" and "length p4 = 4"
    and "p4 = [p4 ! 0, p4 ! 1, p4 ! 2, p4 ! 3]" and "list_all (\<lambda>b. b < 256) p4"
proof -
  from assms have len: "length ip = 16" and all: "list_all (\<lambda>b. b < 256) ip"
    by (simp_all add: validIP_def)
  from assms(2) len have t: "take 10 ip = replicate 10 0" "ip ! 10 = 255" "ip ! 11 = 255"
    and p4: "p4 = drop 12 ip"
    by (auto simp: To4_def split: if_splits)
  have "ip = take 10 ip @ drop 10 ip" by simp
  also have "drop 10 ip = ip ! 10 # drop 11 ip"
    using len by (simp add: Cons_nth_drop_Suc [symmetric])
  also have "drop 11 ip = ip ! 11 # drop 12 ip"
    using len by (simp add: Cons_nth_drop_Suc [symmetric])
  finally show "ip = replicate 10 0 @ [255, 255] @ p4"
    by (simp add: t p4)
  show l4: "length p4 = 4"
    using len by (simp add: p4)
  from l4 obtain a b c d where "p4 = [a, b, c, d]"
    by (auto simp: numeral_eq_Suc length_Suc_conv)
  then show "p4 = [p4 ! 0, p4 ! 1, p4 ! 2, p4 ! 3]"
    by simp
  show "list_all (\<lambda>b. b < 256) p4"
    using all unfolding p4 list_all_iff by (meson in_set_dropD)
qed

lemma ParseIP_String:
  assumes "validIP ip"
  shows "ParseIP (String ip) = Some ip"
proof (cases "To4 ip")
  case None
  then have "String ip = string6 ip"
    using assms by (simp add: String_def validIP_def)
  then show ?thesis
    by (simp add: ParseIP_def ParseAddr_string6 [OF assms])
next
  case (Some p4)
  note p = To4_Some [OF assms Some]
  have lt: "p4 ! 0 < 256" "p4 ! 1 < 256" "p4 ! 2 < 256" "p4 ! 3 < 256"
    using p(2,4) by (simp_all add: list_all_length)
  have "String ip = string4 p4"
    using assms Some by (simp add: String_def validIP_def)
  also have "\<dots> = string4 [p4 ! 0, p4 ! 1, p4 ! 2, p4 ! 3]"
    using p(3) by simp
  finally have "ParseAddr (String ip) = Some (Addr4 [p4 ! 0, p4 ! 1, p4 ! 2, p4 ! 3])"
    by (simp only: ParseAddr_string4 [OF lt])
  then have "ParseAddr (String ip) = Some (Addr4 p4)"
    by (simp only: p(3) [symmetric])
  then show ?thesis
    using p(1) by (simp add: ParseIP_def)
qed

section \<open>What the parsers return\<close>

lemma parseIPv4Loop_valid:
  assumes "parseIPv4Loop fs val digLen prev s = Some r"
    and "list_all (\<lambda>b. b < 256) fs" and "val \<le> 255" and "length fs \<le> 3"
  shows "length r = 4 \<and> list_all (\<lambda>b. b < 256) r"
  using assms
proof (induction s arbitrary: fs val digLen prev)
  case Nil
  then show ?case by (auto split: if_splits)
next
  case (Cons c cs)
  show ?case
  proof (cases "isDigit c")
    case True
    with Cons.prems(1) have ok: "val * 10 + (of_char c - 48) \<le> 255"
      and run: "parseIPv4Loop fs (val * 10 + (of_char c - 48)) (digLen + 1) (Some c) cs = Some r"
      by (auto simp: Let_def split: if_splits)
    from Cons.IH [OF run Cons.prems(2) ok Cons.prems(4)] show ?thesis .
  next
    case False
    with Cons.prems(1) have "length fs \<noteq> 3"
      and run: "parseIPv4Loop (fs @ [val]) 0 0 (Some c) cs = Some r"
      by (auto split: if_splits)
    with Cons.prems have "list_all (\<lambda>b. b < 256) (fs @ [val])" "length (fs @ [val]) \<le> 3"
      by simp_all
    from Cons.IH [OF run this(1) _ this(2)] show ?thesis by simp
  qed
qed

lemma parseIPv4_valid:
  "parseIPv4 s = Some r \<Longrightarrow> length r = 4 \<and> list_all (\<lambda>b. b < 256) r"
  using parseIPv4Loop_valid [of "[]" 0 0 None s r] by (simp add: parseIPv4_def)

lemma scanHex_bound:
  "scanHex acc off s = Some (acc', off', rest) \<Longrightarrow> acc \<le> 65535 \<Longrightarrow> acc' \<le> 65535"
  by (induction s arbitrary: acc off) (auto simp: Let_def split: option.splits if_splits)

lemma parseIPv6Loop_unfold:
  assumes "parseIPv6Loop ip e s = Some res" and "length ip < 16"
  obtains (v4) acc off rest ip4 where "scanHex 0 0 s = Some (acc, off, rest)"
      "parseIPv4 s = Some ip4" "res = (ip @ ip4, e, [])" "length ip + 4 \<le> 16"
    | (stop) acc off rest e' where "scanHex 0 0 s = Some (acc, off, rest)"
      "res = (ip @ [acc div 256, acc mod 256], e', [])"
    | (continue) acc off rest e' s' where "scanHex 0 0 s = Some (acc, off, rest)"
      "parseIPv6Loop (ip @ [acc div 256, acc mod 256]) e' s' = Some res"
proof -
  from assms obtain acc off rest where scan: "scanHex 0 0 s = Some (acc, off, rest)"
    by (subst (asm) parseIPv6Loop.simps) (auto split: option.splits)
  from assms(1) have
    "(\<exists>ip4. parseIPv4 s = Some ip4 \<and> res = (ip @ ip4, e, []) \<and> length ip + 4 \<le> 16)
     \<or> (\<exists>e'. res = (ip @ [acc div 256, acc mod 256], e', []))
     \<or> (\<exists>e' s'. parseIPv6Loop (ip @ [acc div 256, acc mod 256]) e' s' = Some res)"
    apply (subst (asm) parseIPv6Loop.simps)
    apply (simp add: assms(2) scan Let_def split: if_splits option.splits list.splits)
     apply blast+
    done
  with scan v4 stop continue show thesis by blast
qed

lemma parseIPv6Loop_valid:
  assumes "parseIPv6Loop ip e s = Some (ip', e', s')"
    and "list_all (\<lambda>b. b < 256) ip" and "length ip \<le> 16" and "even (length ip)"
  shows "list_all (\<lambda>b. b < 256) ip' \<and> length ip' \<le> 16"
  using assms
proof (induction "16 - length ip" arbitrary: ip e s rule: less_induct)
  case less
  show ?case
  proof (cases "length ip < 16")
    case False
    with less.prems show ?thesis
      by (subst (asm) parseIPv6Loop.simps) simp
  next
    case lt: True
    have "length ip \<noteq> 15"
      using less.prems(4) by auto
    with lt have le: "length ip \<le> 14" by simp
    have grow: "list_all (\<lambda>b. b < 256) (ip @ [acc div 256, acc mod 256])
        \<and> length (ip @ [acc div 256, acc mod 256]) \<le> 16
        \<and> even (length (ip @ [acc div 256, acc mod 256]))"
      if "scanHex 0 0 s = Some (acc, off, rest)" for acc off rest
    proof -
      from that have "acc \<le> 65535"
        by (rule scanHex_bound) simp
      then have "acc div 256 < 256" "acc mod 256 < 256"
        by simp_all
      then show ?thesis
        using less.prems(2,4) le by simp
    qed
    from less.prems(1) lt show ?thesis
    proof (cases rule: parseIPv6Loop_unfold)
      case (v4 acc off rest ip4)
      with parseIPv4_valid [of s ip4] less.prems(2) show ?thesis by simp
    next
      case (stop acc off rest e'')
      with grow [OF stop(1)] show ?thesis by simp
    next
      case (continue acc off rest e'' s'')
      have "16 - length (ip @ [acc div 256, acc mod 256]) < 16 - length ip"
        using lt by simp
      from less.hyps [OF this continue(2)] grow [OF continue(1)] show ?thesis
        by blast
    qed
  qed
qed

lemma parseIPv6End_valid:
  assumes "parseIPv6End zone (parseIPv6Loop [] e0 s1) = Some (Addr6 ip z)"
  shows "validIP ip"
proof -
  from assms obtain bs e where run: "parseIPv6Loop [] e0 s1 = Some (bs, e, [])"
    by (auto simp: parseIPv6End_def split: option.splits if_splits)
  have bs: "list_all (\<lambda>b. b < 256) bs" "length bs \<le> 16"
    using parseIPv6Loop_valid [OF run] by simp_all
  show ?thesis
  proof (cases "length bs < 16")
    case True
    with assms run obtain k where "ip = take k bs @ replicate (16 - length bs) 0 @ drop k bs"
      by (auto simp: parseIPv6End_def split: option.splits)
    with bs True show ?thesis
      by (auto simp: validIP_def list_all_iff dest: in_set_takeD in_set_dropD)
  next
    case False
    with assms run have "ip = bs"
      by (auto simp: parseIPv6End_def split: if_splits)
    with bs False show ?thesis by (simp add: validIP_def)
  qed
qed

lemma parseIPv6_valid:
  assumes "parseIPv6 s = Some (Addr6 ip zone)"
  shows "validIP ip"
proof -
  from assms have "ip = replicate 16 0
      \<or> (\<exists>z e0 s1. parseIPv6End z (parseIPv6Loop [] e0 s1) = Some (Addr6 ip zone))"
    unfolding parseIPv6_def Let_def by (simp split: if_splits) blast+
  then show ?thesis
  proof
    assume "ip = replicate 16 0"
    then show ?thesis by (simp add: validIP_def list_all_iff)
  next
    assume "\<exists>z e0 s1. parseIPv6End z (parseIPv6Loop [] e0 s1) = Some (Addr6 ip zone)"
    then show ?thesis using parseIPv6End_valid by blast
  qed
qed

lemma parseIPv6_Addr6: "parseIPv6 s = Some addr \<Longrightarrow> \<exists>ip zone. addr = Addr6 ip zone"
  unfolding parseIPv6_def Let_def parseIPv6End_def
  by (simp split: if_splits option.splits prod.splits) blast+

lemma ParseAddrLoop_valid:
  "ParseAddrLoop s t = Some addr \<Longrightarrow> validIP (As16 addr)"
proof (induction t)
  case Nil
  then show ?case by simp
next
  case (Cons c cs)
  show ?case
  proof (cases "c = CHR ''.''")
    case True
    with Cons.prems obtain r where "parseIPv4 s = Some r" "addr = Addr4 r"
      by auto
    with parseIPv4_valid [of s r] show ?thesis
      by (simp add: validIP_def list_all_iff)
  next
    case False
    show ?thesis
    proof (cases "c = CHR '':''")
      case True
      with False Cons.prems have p: "parseIPv6 s = Some addr" by simp
      then obtain ip zone where "addr = Addr6 ip zone"
        using parseIPv6_Addr6 by blast
      with p parseIPv6_valid show ?thesis by auto
    next
      case nc: False
      with False Cons show ?thesis by (auto split: if_splits)
    qed
  qed
qed

lemma ParseIP_valid: "ParseIP s = Some ip \<Longrightarrow> validIP ip"
  by (auto simp: ParseIP_def ParseAddr_def split: option.splits if_splits
      dest: ParseAddrLoop_valid)

section \<open>Dotted decimal text is printed back as it was\<close>

lemma of_char_hexDigit: "d < 10 \<Longrightarrow> (of_char (hexDigit d) :: nat) = d + 48"
  by (drule less_10_cases) (auto simp: hexDigit_def)

lemma isDigit_is_hexDigit:
  assumes "isDigit c"
  shows "c = hexDigit (of_char c - 48)" and "(of_char c :: nat) - 48 < 10"
proof -
  from assms show lt: "(of_char c :: nat) - 48 < 10"
    by (auto simp: isDigit_def)
  have "(of_char (hexDigit (of_char c - 48)) :: nat) = of_char c"
    using assms of_char_hexDigit [OF lt] by (simp add: isDigit_def)
  then show "c = hexDigit (of_char c - 48)"
    by (rule of_char_eqI [symmetric])
qed

lemma dotted_simps [simp]:
  "dotted [] = []"
  "dotted (fs @ [f]) = dotted fs @ appendDecimal f @ ''.''"
  by (simp_all add: dotted_def)

lemma appendDecimal_digit: "d < 10 \<Longrightarrow> appendDecimal d = [hexDigit d]"
  by (simp add: appendDecimal_def)

lemma appendDecimal_snoc:
  assumes "1 \<le> val" and "val * 10 + d \<le> 255" and "d < 10"
  shows "appendDecimal (val * 10 + d) = appendDecimal val @ [hexDigit d]"
proof -
  have x: "(val * 10 + d) div 10 = val" "(val * 10 + d) mod 10 = d"
    using assms(3) by simp_all
  have h: "(val * 10 + d) div 100 = val div 10"
  proof -
    have "(val * 10 + d) div 100 = (val * 10 + d) div 10 div 10"
      by (simp add: div_mult2_eq)
    then show ?thesis by (simp only: x)
  qed
  have small: "val < 100" "val div 10 < 10"
    using assms(2) by simp_all
  show ?thesis
  proof (cases "10 \<le> val")
    case True
    then have "100 \<le> val * 10 + d" by simp
    then show ?thesis
      using True small assms(3) by (simp add: appendDecimal_def x h)
  next
    case False
    then have "\<not> 100 \<le> val * 10 + d" "10 \<le> val * 10 + d"
      using assms(1,3) by simp_all
    then show ?thesis
      using False assms(3) by (simp add: appendDecimal_def x)
  qed
qed

lemma string4_snoc:
  assumes "length fs = 3"
  shows "string4 (fs @ [val]) = dotted fs @ appendDecimal val"
proof -
  from assms obtain a b c where "fs = [a, b, c]"
    by (auto simp: numeral_eq_Suc length_Suc_conv)
  then show ?thesis
    by (simp add: string4_def dotted_def)
qed

lemma parseIPv4Loop_text:
  assumes "parseIPv4Loop fs val digLen prev s = Some r"
    and "digLen = 0 \<Longrightarrow>
           val = 0 \<and> (fs = [] \<or> s \<noteq> []) \<and> prev = (if fs = [] then None else Some CHR ''.'')"
    and "digLen \<noteq> 0 \<Longrightarrow>
           length (appendDecimal val) = digLen \<and> (\<exists>c. prev = Some c \<and> c \<noteq> CHR ''.'')"
    and "val \<le> 255" and "length fs \<le> 3"
  shows "string4 r = dotted fs @ (if digLen = 0 then [] else appendDecimal val) @ s"
  using assms
proof (induction s arbitrary: fs val digLen prev)
  case Nil
  from Nil.prems(1) have r: "r = fs @ [val]" and "\<not> length fs < 3"
    by (auto split: if_splits)
  with Nil.prems(5) have len: "length fs = 3" by simp
  then have "fs \<noteq> []" by auto
  with Nil.prems(2) have "digLen \<noteq> 0" by auto
  then show ?case
    by (simp add: r string4_snoc [OF len])
next
  case (Cons c cs)
  show ?case
  proof (cases "isDigit c")
    case True
    define d where "d = (of_char c :: nat) - 48"
    have c: "c = hexDigit d" and d: "d < 10"
      using isDigit_is_hexDigit [OF True] by (simp_all add: d_def)
    from Cons.prems(1) True have nz: "\<not> (digLen = 1 \<and> val = 0)"
      and ok: "val * 10 + d \<le> 255"
      and run: "parseIPv4Loop fs (val * 10 + d) (digLen + 1) (Some c) cs = Some r"
      by (auto simp: Let_def d_def split: if_splits)
    have snoc: "(if digLen = 0 then [] else appendDecimal val) @ [c] = appendDecimal (val * 10 + d)"
      and len: "length (appendDecimal (val * 10 + d)) = digLen + 1"
    proof -
      show "(if digLen = 0 then [] else appendDecimal val) @ [c] = appendDecimal (val * 10 + d)"
      proof (cases "digLen = 0")
        case True
        with Cons.prems(2) d show ?thesis
          by (simp add: appendDecimal_digit c)
      next
        case False
        with Cons.prems(3) have l: "length (appendDecimal val) = digLen" by simp
        have "val \<noteq> 0"
        proof
          assume "val = 0"
          with l have "digLen = 1" by (simp add: appendDecimal_def)
          with nz \<open>val = 0\<close> show False by simp
        qed
        then have "1 \<le> val" by simp
        from appendDecimal_snoc [OF this ok d] False show ?thesis
          by (simp add: c)
      qed
      then show "length (appendDecimal (val * 10 + d)) = digLen + 1"
        using Cons.prems(3) by (metis (full_types) One_nat_def add.right_neutral add_Suc_right
            length_append_singleton list.size(3))
    qed
    have "string4 r = dotted fs
            @ (if digLen + 1 = 0 then [] else appendDecimal (val * 10 + d)) @ cs"
    proof (rule Cons.IH [OF run _ _ ok Cons.prems(5)])
      show "length (appendDecimal (val * 10 + d)) = digLen + 1
              \<and> (\<exists>c'. Some c = Some c' \<and> c' \<noteq> CHR ''.'')"
        using len hexDigit_not_special [of d] d by (simp add: c)
    qed simp
    then show ?thesis
      using snoc [symmetric] by simp
  next
    case False
    with Cons.prems(1) have dot: "c = CHR ''.''"
      and chk: "prev \<noteq> None" "cs \<noteq> []" "prev \<noteq> Some CHR ''.''" "length fs \<noteq> 3"
      and run: "parseIPv4Loop (fs @ [val]) 0 0 (Some c) cs = Some r"
      by (auto split: if_splits)
    have nz: "digLen \<noteq> 0"
    proof
      assume "digLen = 0"
      with Cons.prems(2) have "prev = None \<or> prev = Some CHR ''.''"
        by (cases "fs = []") simp_all
      with chk(1,3) show False by blast
    qed
    have "string4 r = dotted (fs @ [val]) @ (if (0::nat) = 0 then [] else appendDecimal 0) @ cs"
    proof (rule Cons.IH [OF run])
      show "0 = (0::nat) \<and> (fs @ [val] = [] \<or> cs \<noteq> [])
              \<and> Some c = (if fs @ [val] = [] then None else Some CHR ''.'')"
        using chk dot by simp
      show "length (fs @ [val]) \<le> 3"
        using chk Cons.prems(5) by simp
    qed simp_all
    then show ?thesis
      using nz dot by simp
  qed
qed

lemma parseIPv4_text: "parseIPv4 s = Some r \<Longrightarrow> string4 r = s"
  using parseIPv4Loop_text [of "[]" 0 0 None s r] by (simp add: parseIPv4_def)

lemma ParseAddrLoop_no_colon:
  "CHR '':'' \<notin> set t \<Longrightarrow> ParseAddrLoop s t = Some addr \<Longrightarrow>
   \<exists>r. parseIPv4 s = Some r \<and> addr = Addr4 r"
  by (induction t) (auto split: if_splits)

lemma ParseIP_no_colon:
  assumes "ParseIP s = Some ip" and "CHR '':'' \<notin> set s"
  shows "String ip = s"
proof -
  from assms(1) obtain addr where a: "ParseAddr s = Some addr" "ip = As16 addr"
    by (auto simp: ParseIP_def split: option.splits if_splits)
  with assms(2) obtain r where r: "parseIPv4 s = Some r" "addr = Addr4 r"
    using ParseAddrLoop_no_colon [of s s addr] by (auto simp: ParseAddr_def)
  from parseIPv4_valid [OF r(1)] have len: "length r = 4" by simp
  have ip: "ip = replicate 10 0 @ [255, 255] @ r"
    using a r by simp
  have "To4 ip = Some r"
    using len by (simp add: ip To4_def nth_append)
  then have "String ip = string4 r"
    using len by (simp add: String_def ip)
  with parseIPv4_text [OF r(1)] show ?thesis by simp
qed

section \<open>The characters of a printed address\<close>

lemma textChar_alphabet: "textChar c \<Longrightarrow> c \<in> set ''0123456789abcdef:.''"
  unfolding textChar_def
proof (elim disjE exE conjE)
  fix d :: nat
  assume "d < 16" "c = hexDigit d"
  then show "c \<in> set ''0123456789abcdef:.''"
    by (auto dest!: less_16_cases simp: hexDigit_def)
qed simp

lemma appendDecimal_textChar: "a < 256 \<Longrightarrow> list_all textChar (appendDecimal a)"
proof -
  assume "a < 256"
  then have "a div 100 < 16" "a div 10 mod 10 < 16" "a mod 10 < 16"
    by simp_all
  then show ?thesis
    by (simp add: appendDecimal_def textChar_hexDigit)
qed

lemma string6_textChar:
  assumes "validIP ip"
  shows "list_all textChar (string6 ip)"
proof -
  have zs: "zeroStart ip < 8 \<Longrightarrow> zeroStart ip \<le> 8" by simp
  show ?thesis
    unfolding string6_cases using assms
    by (simp add: appendHex_textChar v6u16_less groups_textChar tailText_textChar textChar_def)
qed

lemma alphabet_subset:
  assumes "list_all (\<lambda>c. textChar c \<or> c = CHR ''.'') s"
  shows "set s \<subseteq> set ''0123456789abcdef:.''"
proof
  fix c
  assume "c \<in> set s"
  with assms have "textChar c \<or> c = CHR ''.''"
    by (simp add: list_all_iff)
  then show "c \<in> set ''0123456789abcdef:.''"
  proof
    assume "textChar c"
    then show ?thesis by (rule textChar_alphabet)
  next
    assume "c = CHR ''.''"
    then show ?thesis by simp
  qed
qed

lemma String_alphabet:
  assumes "validIP ip"
  shows "set (String ip) \<subseteq> set ''0123456789abcdef:.''"
proof (cases "To4 ip")
  case None
  then have "String ip = string6 ip"
    using assms by (simp add: String_def validIP_def)
  moreover have "list_all (\<lambda>c. textChar c \<or> c = CHR ''.'') (string6 ip)"
    using string6_textChar [OF assms] by (simp add: list_all_iff)
  ultimately show ?thesis
    using alphabet_subset by simp
next
  case (Some p4)
  note p = To4_Some [OF assms Some]
  have lt: "p4 ! 0 < 256" "p4 ! 1 < 256" "p4 ! 2 < 256" "p4 ! 3 < 256"
    using p(2,4) by (simp_all add: list_all_length)
  have "String ip = string4 p4"
    using assms Some by (simp add: String_def validIP_def)
  moreover have "list_all (\<lambda>c. textChar c \<or> c = CHR ''.'') (string4 p4)"
    using lt [THEN appendDecimal_textChar]
    unfolding string4_def list_all_iff by auto
  ultimately show ?thesis
    using alphabet_subset by simp
qed


section \<open>Text that the parser refuses\<close>













lemma SplitAcc_field:
  "sep \<notin> set f \<Longrightarrow> SplitAcc acc sep (f @ sep # rest) = (rev acc @ f) # SplitAcc [] sep rest"
  by (induction f arbitrary: acc) auto

lemma SplitAcc_last_field:
  "sep \<notin> set f \<Longrightarrow> SplitAcc acc sep f = [rev acc @ f]"
  by (induction f arbitrary: acc) auto

lemma SplitAcc_text:
  "concat (map (\<lambda>f. f @ [sep]) (SplitAcc acc sep s)) = rev acc @ s @ [sep]"
  by (induction s arbitrary: acc) auto

lemma Split_four:
  assumes "Split t sep = [f1, f2, f3, f4]"
  shows "t = f1 @ sep # f2 @ sep # f3 @ sep # f4"
proof -
  from SplitAcc_text [of sep "[]" t] assms
  have "f1 @ sep # f2 @ sep # f3 @ sep # f4 @ [sep] = t @ [sep]"
    by (simp add: Split_def)
  then have "(f1 @ sep # f2 @ sep # f3 @ sep # f4) @ [sep] = t @ [sep]"
    by simp
  then show ?thesis
    by (simp only: append_same_eq)
qed

lemma decimalOctet_iff: "decimalOctet f \<longleftrightarrow> (\<exists>a<256. f = appendDecimal a)"
  by (auto simp: decimalOctet_def)

lemma Split_string4:
  assumes "a < 256" "b < 256" "c < 256" "d < 256"
  shows "Split (string4 [a, b, c, d]) (CHR ''.'')
           = [appendDecimal a, appendDecimal b, appendDecimal c, appendDecimal d]"
proof -
  have np: "CHR ''.'' \<notin> set (appendDecimal x)" if "x < 256" for x
    using appendDecimal_not_special [OF that] by blast
  show ?thesis
    unfolding Split_def string4_def
    by (simp add: SplitAcc_field SplitAcc_last_field np assms)
qed

lemma dottedQuad_iff:
  "dottedQuad t \<longleftrightarrow> (\<exists>a<256. \<exists>b<256. \<exists>c<256. \<exists>d<256. t = string4 [a, b, c, d])"
proof
  assume "dottedQuad t"
  then have len: "length (Split t (CHR ''.'')) = 4"
    and all: "list_all decimalOctet (Split t (CHR ''.''))"
    by (simp_all add: dottedQuad_def Let_def)
  from len obtain f1 f2 f3 f4 where fs: "Split t (CHR ''.'') = [f1, f2, f3, f4]"
    by (auto simp: numeral_eq_Suc length_Suc_conv)
  with all obtain a b c d where lt: "a < 256" "b < 256" "c < 256" "d < 256"
    and "f1 = appendDecimal a" "f2 = appendDecimal b" "f3 = appendDecimal c"
      "f4 = appendDecimal d"
    by (auto simp: decimalOctet_iff)
  with Split_four [OF fs] have "t = string4 [a, b, c, d]"
    by (simp add: string4_def)
  with lt show "\<exists>a<256. \<exists>b<256. \<exists>c<256. \<exists>d<256. t = string4 [a, b, c, d]"
    by blast
next
  assume "\<exists>a<256. \<exists>b<256. \<exists>c<256. \<exists>d<256. t = string4 [a, b, c, d]"
  then obtain a b c d where lt: "a < 256" "b < 256" "c < 256" "d < 256"
    and t: "t = string4 [a, b, c, d]"
    by blast
  show "dottedQuad t"
    unfolding dottedQuad_def Let_def t Split_string4 [OF lt]
    using lt by (auto simp: decimalOctet_iff)
qed


lemma dottedQuad_ParseIP:
  assumes "dottedQuad s"
  shows "ParseIP s \<noteq> None"
proof -
  from assms obtain a b c d where "a < 256" "b < 256" "c < 256" "d < 256"
    and "s = string4 [a, b, c, d]"
    unfolding dottedQuad_iff by blast
  with ParseAddr_string4 [of a b c d] show ?thesis
    by (simp add: ParseIP_def)
qed

section \<open>Evaluating the parser and the printer on concrete text\<close>

lemma replicate_numeral: "replicate (numeral k) x = x # replicate (pred_numeral k) x"
  by (simp add: numeral_eq_Suc)

lemmas parse_eval = replicate_numeral ParseIP_def ParseAddr_def parseIPv4_def isDigit_def
  parseIPv6_def parseIPv6End_def notPercent_def parseIPv6Loop.simps hexVal_def Let_def

lemmas string_eval = replicate_numeral String_def To4_def string4_def string6_def
  appendTo6Loop.simps zeroStart_def zeroEnd_def findZeroRun.simps zeroRunFrom.simps v6u16_def
  appendHex_def appendDecimal_def hexDigit_def Let_def

lemma getIP_httpBody:
  "getIP (httpBody (t @ [newline])) url =
     (case ParseIP t of
        None \<Rightarrow> (Inl InvalidAddressError, [])
      | Some ip \<Rightarrow> (Inr (String ip), []))"
  by (cases "ParseIP t")
    (simp_all add: getIP_def httpBody_def TrimSuffix_newline_append closeLines_def)

lemma ParseIP_upper: "ParseIP ''2001:DB8::1'' = Some [32, 1, 13, 184, 0, 0, 0, 0, 0, 0, 0, 0, 0, 0, 0, 1]"
  by (simp add: parse_eval)

lemma ParseIP_long:
  "ParseIP ''2001:DB8:0:0:0:0:0:1'' = Some [32, 1, 13, 184, 0, 0, 0, 0, 0, 0, 0, 0, 0, 0, 0, 1]"
  by (simp add: parse_eval)

lemma String_2001_db8_1:
  "String [32, 1, 13, 184, 0, 0, 0, 0, 0, 0, 0, 0, 0, 0, 0, 1] = ''2001:db8::1''"
  by (simp add: string_eval)

lemma ParseIP_203_0_113_9:
  "ParseIP ''203.0.113.9'' = Some [0, 0, 0, 0, 0, 0, 0, 0, 0, 0, 255, 255, 203, 0, 113, 9]"
  by (simp add: parse_eval)

lemma String_203_0_113_9:
  "String [0, 0, 0, 0, 0, 0, 0, 0, 0, 0, 255, 255, 203, 0, 113, 9] = ''203.0.113.9''"
  by (simp add: string_eval)

section \<open>The claims about upsertRoute53Record\<close>

text \<open>
  Claim C1. The claim: when the zone lookup returns exactly one zone whose own name is not
  \<open>parentDomain + "."\<close>, reconcile fails with ZoneMismatchError and issues no upsert.
  The code compares \<open>resources.DNSName\<close>, the name the answer repeats from the request,
  and never reads the name of the zone. Below, the provider has no zone \<open>example.com.\<close>
  and answers with the next one, \<open>example.org.\<close>: the run goes on, lists the records of
  that zone and submits the upsert to it, which the provider rejects.
\<close>

theorem zone_name_not_checked:
  "result (upsertRoute53Record ''203.0.113.9'' ''home.example.com''
      (stubClient (zoneAnswer ''example.com.'' ''/hostedzone/Z999'' ''example.org.'')
         \<lparr>out_ResourceRecordSets = []\<rparr> (Inl ''InvalidChangeBatch'')))
     = Returned (Some (UpdateRejectedError ''InvalidChangeBatch''))
   \<and> calls (upsertRoute53Record ''203.0.113.9'' ''home.example.com''
      (stubClient (zoneAnswer ''example.com.'' ''/hostedzone/Z999'' ''example.org.'')
         \<lparr>out_ResourceRecordSets = []\<rparr> (Inl ''InvalidChangeBatch''))) =
      [CallListHostedZonesByName (zoneLookupInput ''example.com''),
       CallListResourceRecordSets (listRecordsInput ''home.example.com'' ''Z999''),
       CallChangeResourceRecordSets (upsertParams ''203.0.113.9'' ''home.example.com'' ''Z999'')]"
proof -
  let ?zones = "zoneAnswer ''example.com.'' ''/hostedzone/Z999'' ''example.org.''"
  let ?client = "stubClient ?zones \<lparr>out_ResourceRecordSets = []\<rparr> (Inl ''InvalidChangeBatch'')"
  have "upsertRoute53Record ''203.0.113.9'' ''home.example.com'' ?client =
          reconcileRecords ''203.0.113.9'' ''home.example.com'' ?client ''example.com''
            (last (Split (zone_Id \<lparr>zone_Id = ''/hostedzone/Z999'', zone_Name = ''example.org.''\<rparr>) CHR ''/''))
            [CallListHostedZonesByName (zoneLookupInput ''example.com'')]"
    by (rule upsert_located [OF tokens_home, where resources = ?zones])
       (simp_all add: stubClient_def zoneAnswer_def)
  then show ?thesis
    by (simp add: last_Split_Z999 reconcileRecords_def submitUpsert_def finish_def stubClient_def)
qed

text \<open>
  Claim C2. The claim: a hostname without a separator makes the splitting step return
  MalformedHostnameError without a crash. In the code the regular expression does not
  match, \<open>tokens\<close> is nil and \<open>tokens[2]\<close> panics; no provider call is made.
\<close>

theorem hostname_without_separator_panics:
  "upsertRoute53Record ip ''localhost'' dnsClient = finish (Panicked IndexOutOfRange) [] []"
  by (simp add: upsertRoute53Record_def FindStringSubmatch_def index_def notPeriod_def)


text \<open>
  Claim C4, as stated, fails: the parent domain of \<open>host.\<close> is empty (and the label of
  \<open>.com\<close> is), since both groups of the regular expression may match the empty text.
\<close>

theorem split_empty_parent_counterexample:
  "CHR ''.'' \<in> set ''host.'' \<and> FindStringSubmatch ''host.'' = [''host.'', ''host'', '''']"
  by (simp add: FindStringSubmatch_def notPeriod_def)

text \<open>
  Claim C4, amended. A hostname with a separator and no newline after its first separator
  is split at the first separator: the label holds no separator, label, separator and
  parent domain give the hostname back, the label is empty exactly when the hostname
  starts with the separator, and the parent domain is empty exactly when the first
  separator is the last byte.
\<close>

theorem hostname_split:
  assumes "CHR ''.'' \<in> set fqdn"
    and "newline \<notin> set (drop (Suc (length (takeWhile notPeriod fqdn))) fqdn)"
  shows "\<exists>label domain.
           FindStringSubmatch fqdn = [fqdn, label, domain]
         \<and> index (FindStringSubmatch fqdn) 2 = Some domain
         \<and> label @ ''.'' @ domain = fqdn
         \<and> CHR ''.'' \<notin> set label
         \<and> (label = [] \<longleftrightarrow> hd fqdn = CHR ''.'')
         \<and> (domain = [] \<longleftrightarrow> length label + 1 = length fqdn)"
proof -
  define label where "label = takeWhile notPeriod fqdn"
  define rest where "rest = dropWhile notPeriod fqdn"
  have split: "fqdn = label @ rest"
    by (simp add: label_def rest_def)
  have "rest \<noteq> []"
    using assms(1) by (auto simp: rest_def notPeriod_def)
  then obtain p domain where rest: "rest = p # domain"
    by (cases rest) auto
  have "\<not> notPeriod (hd rest)"
    using \<open>rest \<noteq> []\<close> unfolding rest_def by (rule hd_dropWhile)
  then have p: "p = CHR ''.''"
    by (simp add: rest notPeriod_def)
  have nolabel: "CHR ''.'' \<notin> set label"
  proof
    assume "CHR ''.'' \<in> set label"
    then have "notPeriod CHR ''.''"
      unfolding label_def by (rule set_takeWhileD [THEN conjunct2])
    then show False by (simp add: notPeriod_def)
  qed
  have "drop (Suc (length label)) fqdn = domain"
    by (simp add: split rest)
  then have nonl: "newline \<notin> set domain"
    using assms(2) by (simp add: label_def)
  have find: "FindStringSubmatch fqdn = [fqdn, label, domain]"
    using rest nonl by (simp add: FindStringSubmatch_def rest_def [symmetric] label_def)
  have hd: "label = [] \<longleftrightarrow> hd fqdn = CHR ''.''"
    using nolabel by (cases label) (auto simp: split rest p)
  show ?thesis
    apply (rule exI [of _ label], rule exI [of _ domain])
    using find nolabel hd by (auto simp: split rest p index_def)
qed

theorem hostname_split_witness:
  "CHR ''.'' \<in> set ''home.example.com''
   \<and> newline \<notin> set (drop (Suc (length (takeWhile notPeriod ''home.example.com''))) ''home.example.com'')
   \<and> FindStringSubmatch ''home.example.com'' = [''home.example.com'', ''home'', ''example.com'']"
  using hostname_split [of "''home.example.com''"]
  by (simp add: notPeriod_def newline_def FindStringSubmatch_def)



text \<open>
  Claim C5 (idempotence). When the zone is located and the record listing returns one
  record whose name is \<open>fqdn + "."\<close> and one of whose values is \<open>ip\<close>, the run returns
  nil, logs "already registered", and its calls are the zone lookup and the record
  listing only: no change batch is submitted.
\<close>

theorem registered_address_no_upsert:
  assumes "index (FindStringSubmatch fqdn) 2 = Some domain"
    and "ListHostedZonesByName dnsClient (zoneLookupInput domain) = Inr resources"
    and "out_HostedZones resources = [zone]"
    and "out_DNSName resources = Some (domain @ ''.'')"
    and "zoneID = last (Split (zone_Id zone) CHR ''/'')"
    and "ListResourceRecordSets dnsClient (listRecordsInput fqdn zoneID) = Inr resp"
    and "out_ResourceRecordSets resp = [rrset]"
    and "rrs_Name rrset = fqdn @ ''.''"
    and "ip \<in> set (map rr_Value (rrs_ResourceRecords rrset))"
  shows "result (upsertRoute53Record ip fqdn dnsClient) = Returned None
       \<and> logs (upsertRoute53Record ip fqdn dnsClient) = [registeredLine ip fqdn]
       \<and> calls (upsertRoute53Record ip fqdn dnsClient) =
           [CallListHostedZonesByName (zoneLookupInput domain),
            CallListResourceRecordSets (listRecordsInput fqdn zoneID)]
       \<and> \<not> list_ex isUpsertCall (calls (upsertRoute53Record ip fqdn dnsClient))"
proof -
  have "upsertRoute53Record ip fqdn dnsClient =
          reconcileRecords ip fqdn dnsClient domain zoneID
            [CallListHostedZonesByName (zoneLookupInput domain)]"
    unfolding assms(5) using assms(1-4) by (rule upsert_located)
  moreover have "valueRegistered (rrs_ResourceRecords rrset) ip"
    using assms(9) by (simp only: valueRegistered_iff)
  ultimately show ?thesis
    using assms(6-8) by (simp add: reconcileRecords_def finish_def)
qed

theorem registered_address_no_upsert_witness:
  "result (upsertRoute53Record ''203.0.113.9'' ''home.example.com''
      (stubClient (zoneAnswer ''example.com.'' ''/hostedzone/Z123'' ''example.com.'')
         (recordAnswer ''home.example.com.'' [''203.0.113.9'']) (Inr ()))) = Returned None
   \<and> calls (upsertRoute53Record ''203.0.113.9'' ''home.example.com''
      (stubClient (zoneAnswer ''example.com.'' ''/hostedzone/Z123'' ''example.com.'')
         (recordAnswer ''home.example.com.'' [''203.0.113.9'']) (Inr ()))) =
      [CallListHostedZonesByName (zoneLookupInput ''example.com''),
       CallListResourceRecordSets (listRecordsInput ''home.example.com'' ''Z123'')]"
proof -
  let ?zones = "zoneAnswer ''example.com.'' ''/hostedzone/Z123'' ''example.com.''"
  let ?records = "recordAnswer ''home.example.com.'' [''203.0.113.9'']"
  let ?client = "stubClient ?zones ?records (Inr ())"
  have z: "''Z123'' = last (Split (zone_Id \<lparr>zone_Id = ''/hostedzone/Z123'', zone_Name = ''example.com.''\<rparr>) CHR ''/'')"
    by (simp add: Split_def)
  show ?thesis
    using registered_address_no_upsert [OF tokens_home, where dnsClient = ?client and resources = ?zones and resp = ?records
        and ip = "''203.0.113.9''", OF _ _ _ z]
    by (simp add: stubClient_def zoneAnswer_def recordAnswer_def)
qed


text \<open>
  Claim C6, as stated, fails: the provider may reject the change batch, and the run then
  returns "failed to update record set" instead of "updated".
\<close>

theorem update_rejected_counterexample:
  "index (FindStringSubmatch ''home.example.com'') 2 = Some ''example.com''
   \<and> ListHostedZonesByName
        (stubClient (zoneAnswer ''example.com.'' ''/hostedzone/Z123'' ''example.com.'')
           \<lparr>out_ResourceRecordSets = []\<rparr> (Inl ''AccessDenied''))
        (zoneLookupInput ''example.com'')
       = Inr (zoneAnswer ''example.com.'' ''/hostedzone/Z123'' ''example.com.'')
   \<and> ListResourceRecordSets
        (stubClient (zoneAnswer ''example.com.'' ''/hostedzone/Z123'' ''example.com.'')
           \<lparr>out_ResourceRecordSets = []\<rparr> (Inl ''AccessDenied''))
        (listRecordsInput ''home.example.com'' ''Z123'')
       = Inr \<lparr>out_ResourceRecordSets = []\<rparr>
   \<and> result (upsertRoute53Record ''203.0.113.9'' ''home.example.com''
        (stubClient (zoneAnswer ''example.com.'' ''/hostedzone/Z123'' ''example.com.'')
           \<lparr>out_ResourceRecordSets = []\<rparr> (Inl ''AccessDenied'')))
       = Returned (Some (UpdateRejectedError ''AccessDenied''))"
proof -
  let ?zones = "zoneAnswer ''example.com.'' ''/hostedzone/Z123'' ''example.com.''"
  let ?client = "stubClient ?zones \<lparr>out_ResourceRecordSets = []\<rparr> (Inl ''AccessDenied'')"
  have "upsertRoute53Record ''203.0.113.9'' ''home.example.com'' ?client =
          reconcileRecords ''203.0.113.9'' ''home.example.com'' ?client ''example.com''
            (last (Split (zone_Id \<lparr>zone_Id = ''/hostedzone/Z123'', zone_Name = ''example.com.''\<rparr>) CHR ''/''))
            [CallListHostedZonesByName (zoneLookupInput ''example.com'')]"
    by (rule upsert_located [OF tokens_home, where resources = ?zones])
       (simp_all add: stubClient_def zoneAnswer_def)
  then show ?thesis
    by (simp add: tokens_home reconcileRecords_def submitUpsert_def finish_def stubClient_def)
qed

text \<open>
  Claim C6, amended. When the zone is located and the record listing returns no record,
  or one record with another name, or one record with the right name and no value equal
  to \<open>ip\<close>, the run submits exactly one change batch: one UPSERT of a record named
  \<open>fqdn + "."\<close> of type A with the single value \<open>ip\<close> and TTL 300, for the zone id that
  is the last slash-separated piece of the zone's \<open>Id\<close>. It returns nil and logs the
  submission when the provider accepts the batch, and returns UpdateRejectedError when the
  provider rejects it.
\<close>

theorem update_path:
  assumes "index (FindStringSubmatch fqdn) 2 = Some domain"
    and "ListHostedZonesByName dnsClient (zoneLookupInput domain) = Inr resources"
    and "out_HostedZones resources = [zone]"
    and "out_DNSName resources = Some (domain @ ''.'')"
    and "zoneID = last (Split (zone_Id zone) CHR ''/'')"
    and "ListResourceRecordSets dnsClient (listRecordsInput fqdn zoneID) = Inr resp"
    and "out_ResourceRecordSets resp = []
         \<or> (\<exists>rrset. out_ResourceRecordSets resp = [rrset]
               \<and> (rrs_Name rrset \<noteq> fqdn @ ''.''
                    \<or> ip \<notin> set (map rr_Value (rrs_ResourceRecords rrset))))"
  shows "calls (upsertRoute53Record ip fqdn dnsClient) =
           [CallListHostedZonesByName (zoneLookupInput domain),
            CallListResourceRecordSets (listRecordsInput fqdn zoneID),
            CallChangeResourceRecordSets
              \<lparr>crr_ChangeBatch =
                 \<lparr>cb_Changes =
                    [\<lparr>chg_Action = ''UPSERT'',
                      chg_ResourceRecordSet =
                        \<lparr>rrs_Name = fqdn @ ''.'', rrs_Type = ''A'',
                         rrs_ResourceRecords = [\<lparr>rr_Value = ip\<rparr>], rrs_TTL = Some 300\<rparr>\<rparr>]\<rparr>,
               crr_HostedZoneId = zoneID\<rparr>]
       \<and> length (filter isUpsertCall (calls (upsertRoute53Record ip fqdn dnsClient))) = 1
       \<and> (\<exists>pre. zone_Id zone = pre @ zoneID \<and> (pre = [] \<or> last pre = CHR ''/'')
                 \<and> CHR ''/'' \<notin> set zoneID)
       \<and> result (upsertRoute53Record ip fqdn dnsClient) =
           (case ChangeResourceRecordSets dnsClient (upsertParams ip fqdn zoneID) of
              Inl err \<Rightarrow> Returned (Some (UpdateRejectedError err))
            | Inr u \<Rightarrow> Returned None)
       \<and> logs (upsertRoute53Record ip fqdn dnsClient) =
           (case ChangeResourceRecordSets dnsClient (upsertParams ip fqdn zoneID) of
              Inl err \<Rightarrow> []
            | Inr u \<Rightarrow> [submittedLine zoneID ip fqdn])"
proof -
  have located: "upsertRoute53Record ip fqdn dnsClient =
          reconcileRecords ip fqdn dnsClient domain zoneID
            [CallListHostedZonesByName (zoneLookupInput domain)]"
    unfolding assms(5) using assms(1-4) by (rule upsert_located)
  have "reconcileRecords ip fqdn dnsClient domain zoneID
            [CallListHostedZonesByName (zoneLookupInput domain)] =
        submitUpsert ip fqdn dnsClient zoneID
            [CallListHostedZonesByName (zoneLookupInput domain),
             CallListResourceRecordSets (listRecordsInput fqdn zoneID)]"
    using assms(6,7) by (auto simp: reconcileRecords_def valueRegistered_iff)
  with located have run: "upsertRoute53Record ip fqdn dnsClient =
        submitUpsert ip fqdn dnsClient zoneID
            [CallListHostedZonesByName (zoneLookupInput domain),
             CallListResourceRecordSets (listRecordsInput fqdn zoneID)]"
    by simp
  have seg: "\<exists>pre. zone_Id zone = pre @ zoneID \<and> (pre = [] \<or> last pre = CHR ''/'')
                 \<and> CHR ''/'' \<notin> set zoneID"
    unfolding assms(5) by (rule last_Split)
  have params: "upsertParams ip fqdn zoneID =
      \<lparr>crr_ChangeBatch =
                 \<lparr>cb_Changes =
                    [\<lparr>chg_Action = ''UPSERT'',
                      chg_ResourceRecordSet =
                        \<lparr>rrs_Name = fqdn @ ''.'', rrs_Type = ''A'',
                         rrs_ResourceRecords = [\<lparr>rr_Value = ip\<rparr>], rrs_TTL = Some 300\<rparr>\<rparr>]\<rparr>,
               crr_HostedZoneId = zoneID\<rparr>"
    by (simp add: upsertParams_def resourceRecordSet_def TTL_def)
  have c: "calls (upsertRoute53Record ip fqdn dnsClient) =
           [CallListHostedZonesByName (zoneLookupInput domain),
            CallListResourceRecordSets (listRecordsInput fqdn zoneID),
            CallChangeResourceRecordSets (upsertParams ip fqdn zoneID)]"
    by (simp add: run submitUpsert_def finish_def Let_def split: sum.splits)
  have r: "result (upsertRoute53Record ip fqdn dnsClient) =
           (case ChangeResourceRecordSets dnsClient (upsertParams ip fqdn zoneID) of
              Inl err \<Rightarrow> Returned (Some (UpdateRejectedError err))
            | Inr u \<Rightarrow> Returned None)"
    by (simp add: run submitUpsert_def finish_def Let_def split: sum.splits)
  have l: "logs (upsertRoute53Record ip fqdn dnsClient) =
           (case ChangeResourceRecordSets dnsClient (upsertParams ip fqdn zoneID) of
              Inl err \<Rightarrow> []
            | Inr u \<Rightarrow> [submittedLine zoneID ip fqdn])"
    by (simp add: run submitUpsert_def finish_def Let_def split: sum.splits)
  have n: "length (filter isUpsertCall (calls (upsertRoute53Record ip fqdn dnsClient))) = 1"
    by (simp add: c)
  show ?thesis
    using c [unfolded params] n seg r l by blast
qed

theorem update_path_witness:
  "calls (upsertRoute53Record ''203.0.113.9'' ''home.example.com''
      (stubClient (zoneAnswer ''example.com.'' ''/hostedzone/Z123'' ''example.com.'')
         (recordAnswer ''home.example.com.'' [''203.0.113.1'']) (Inr ()))) =
      [CallListHostedZonesByName \<lparr>lhz_DNSName = ''example.com.'', lhz_MaxItems = ''1''\<rparr>,
       CallListResourceRecordSets
         \<lparr>lrr_StartRecordName = ''home.example.com'', lrr_StartRecordType = ''A'',
          lrr_HostedZoneId = ''Z123'', lrr_MaxItems = ''1''\<rparr>,
       CallChangeResourceRecordSets
         \<lparr>crr_ChangeBatch =
            \<lparr>cb_Changes =
               [\<lparr>chg_Action = ''UPSERT'',
                 chg_ResourceRecordSet =
                   \<lparr>rrs_Name = ''home.example.com.'', rrs_Type = ''A'',
                    rrs_ResourceRecords = [\<lparr>rr_Value = ''203.0.113.9''\<rparr>],
                    rrs_TTL = Some 300\<rparr>\<rparr>]\<rparr>,
          crr_HostedZoneId = ''Z123''\<rparr>]
   \<and> result (upsertRoute53Record ''203.0.113.9'' ''home.example.com''
      (stubClient (zoneAnswer ''example.com.'' ''/hostedzone/Z123'' ''example.com.'')
         (recordAnswer ''home.example.com.'' [''203.0.113.1'']) (Inr ()))) = Returned None
   \<and> logs (upsertRoute53Record ''203.0.113.9'' ''home.example.com''
      (stubClient (zoneAnswer ''example.com.'' ''/hostedzone/Z123'' ''example.com.'')
         (recordAnswer ''home.example.com.'' [''203.0.113.1'']) (Inr ()))) =
      [submittedLine ''Z123'' ''203.0.113.9'' ''home.example.com'']"
proof -
  let ?zones = "zoneAnswer ''example.com.'' ''/hostedzone/Z123'' ''example.com.''"
  let ?records = "recordAnswer ''home.example.com.'' [''203.0.113.1'']"
  let ?client = "stubClient ?zones ?records (Inr ())"
  have z: "''Z123'' = last (Split (zone_Id \<lparr>zone_Id = ''/hostedzone/Z123'', zone_Name = ''example.com.''\<rparr>) CHR ''/'')"
    by (simp add: Split_def)
  show ?thesis
    using update_path [OF tokens_home, where dnsClient = ?client and resources = ?zones and resp = ?records
        and ip = "''203.0.113.9''", OF _ _ _ z]
    by (simp add: stubClient_def zoneAnswer_def recordAnswer_def zoneLookupInput_def
        listRecordsInput_def RecordType_def)
qed


text \<open>
  Claim C8. When the answer to the zone lookup (which asks for one item at most) holds
  no hosted zone or more than one, the run returns "could not find domain" and its only
  call is the zone lookup: no record listing, no upsert.
\<close>

theorem zone_count_not_one_fails:
  assumes "index (FindStringSubmatch fqdn) 2 = Some domain"
    and "ListHostedZonesByName dnsClient (zoneLookupInput domain) = Inr resources"
    and "length (out_HostedZones resources) \<noteq> 1"
  shows "result (upsertRoute53Record ip fqdn dnsClient) = Returned (Some (ZoneNotFoundError domain))
       \<and> calls (upsertRoute53Record ip fqdn dnsClient) = [CallListHostedZonesByName (zoneLookupInput domain)]
       \<and> lhz_MaxItems (zoneLookupInput domain) = ''1''
       \<and> \<not> list_ex isListRecordsCall (calls (upsertRoute53Record ip fqdn dnsClient))
       \<and> \<not> list_ex isUpsertCall (calls (upsertRoute53Record ip fqdn dnsClient))"
proof -
  have "upsertRoute53Record ip fqdn dnsClient =
          finish (Returned (Some (ZoneNotFoundError domain)))
            [CallListHostedZonesByName (zoneLookupInput domain)] []"
    using assms by (auto simp: upsertRoute53Record_def Let_def split: list.splits)
  then show ?thesis by (simp add: finish_def zoneLookupInput_def)
qed

theorem zone_count_not_one_fails_witness:
  "result (upsertRoute53Record ''203.0.113.9'' ''home.example.com''
      (stubClient \<lparr>out_DNSName = Some ''example.com.'', out_HostedZones = []\<rparr>
         (recordAnswer ''home.example.com.'' [''203.0.113.1'']) (Inr ())))
     = Returned (Some (ZoneNotFoundError ''example.com''))
   \<and> calls (upsertRoute53Record ''203.0.113.9'' ''home.example.com''
      (stubClient \<lparr>out_DNSName = Some ''example.com.'', out_HostedZones = []\<rparr>
         (recordAnswer ''home.example.com.'' [''203.0.113.1'']) (Inr ())))
     = [CallListHostedZonesByName \<lparr>lhz_DNSName = ''example.com.'', lhz_MaxItems = ''1''\<rparr>]"
  using zone_count_not_one_fails [of "''home.example.com''" "''example.com''"
      "stubClient \<lparr>out_DNSName = Some ''example.com.'', out_HostedZones = []\<rparr>
         (recordAnswer ''home.example.com.'' [''203.0.113.1'']) (Inr ())"
      "\<lparr>out_DNSName = Some ''example.com.'', out_HostedZones = []\<rparr>" "''203.0.113.9''"]
    tokens_home
  by (simp add: stubClient_def zoneLookupInput_def)



section \<open>The claims about getIP and getIPAndUpdate\<close>






text \<open>
  Claim C7, as stated, fails: an error of the cycle is returned to the scheduler and
  nothing logs it. Below the HTTP request fails; the cycle returns the wrapped error and
  its log is empty.
\<close>

theorem cycle_error_not_logged_counterexample:
  "result (getIPAndUpdate (httpDown ''i/o timeout'') ''http://ip.example'' ''home.example.com''
             (stubClient (zoneAnswer ''example.com.'' ''/hostedzone/Z123'' ''example.com.'')
                (recordAnswer ''home.example.com.'' [''203.0.113.1'']) (Inr ())))
     = Returned (Some (ResolvePhaseError (TransportError ''i/o timeout'')))
   \<and> logs (getIPAndUpdate (httpDown ''i/o timeout'') ''http://ip.example'' ''home.example.com''
             (stubClient (zoneAnswer ''example.com.'' ''/hostedzone/Z123'' ''example.com.'')
                (recordAnswer ''home.example.com.'' [''203.0.113.1'']) (Inr ())))
     = []"
  by (simp add: getIPAndUpdate_def getIP_def httpDown_def finish_def)


text \<open>
  Claim C7, amended. Every error that \<open>getIP\<close> or \<open>upsertRoute53Record\<close> returns during
  a cycle is wrapped by \<open>getIPAndUpdate\<close> with the text of its phase ("unable to
  determine ip address", "could not update record") and returned to the scheduler;
  \<open>getIPAndUpdate\<close> adds no log line of its own. At startup \<open>init\<close> ends the process
  with \<open>log.Fatalf\<close> exactly when the hostname or the URL setting is empty, and
  exactly then no scheduler has been created. With both settings present \<open>init\<close> ends
  the process exactly when \<open>session.NewSession\<close> fails: \<open>session.Must\<close> panics with
  that error, after the scheduler has been created. The scheduler is started exactly
  when both settings are present and the session has been created.
\<close>

theorem cycle_errors_wrapped:
  assumes "fst (getIP httpGet ipURL) = Inl e
           \<or> (\<exists>ip. fst (getIP httpGet ipURL) = Inr ip
                 \<and> result (upsertRoute53Record ip fqdn dnsClient) = Returned (Some e))"
  shows "result (getIPAndUpdate httpGet ipURL fqdn dnsClient) =
           Returned (Some (case fst (getIP httpGet ipURL) of
                             Inl e' \<Rightarrow> ResolvePhaseError e
                           | Inr ip \<Rightarrow> UpdatePhaseError e))
       \<and> errorText (ResolvePhaseError e) = ''unable to determine ip address: '' @ errorText e
       \<and> errorText (UpdatePhaseError e) = ''could not update record: '' @ errorText e
       \<and> logs (getIPAndUpdate httpGet ipURL fqdn dnsClient) =
           snd (getIP httpGet ipURL)
             @ (case fst (getIP httpGet ipURL) of
                  Inl e' \<Rightarrow> []
                | Inr ip \<Rightarrow> logs (upsertRoute53Record ip fqdn dnsClient))
       \<and> ((\<exists>msg. fst (init getenv newSession route53New) = Some (Fatal msg))
            \<longleftrightarrow> getenv FQDNEnvVar = [] \<or> getenv PublicIPURL = [])
       \<and> (g_scheduler (snd (init getenv newSession route53New)) = None
            \<longleftrightarrow> getenv FQDNEnvVar = [] \<or> getenv PublicIPURL = [])
       \<and> (fst (init getenv newSession route53New) = Some (SessionPanic err)
            \<longleftrightarrow> getenv FQDNEnvVar \<noteq> [] \<and> getenv PublicIPURL \<noteq> [] \<and> newSession = Inl err)
       \<and> (schedulerStarted (program getenv newSession route53New doErr)
            \<longleftrightarrow> getenv FQDNEnvVar \<noteq> [] \<and> getenv PublicIPURL \<noteq> []
                \<and> (\<exists>sess. newSession = Inr sess))"
proof -
  obtain r ls where g: "getIP httpGet ipURL = (r, ls)"
    by (cases "getIP httpGet ipURL")
  have res: "result (getIPAndUpdate httpGet ipURL fqdn dnsClient) =
           Returned (Some (case fst (getIP httpGet ipURL) of
                             Inl e' \<Rightarrow> ResolvePhaseError e
                           | Inr ip \<Rightarrow> UpdatePhaseError e))"
    using assms g by (cases r) (auto simp: getIPAndUpdate_def finish_def Let_def)
  have lg: "logs (getIPAndUpdate httpGet ipURL fqdn dnsClient) =
           snd (getIP httpGet ipURL)
             @ (case fst (getIP httpGet ipURL) of
                  Inl e' \<Rightarrow> []
                | Inr ip \<Rightarrow> logs (upsertRoute53Record ip fqdn dnsClient))"
    using g by (cases r)
      (auto simp: getIPAndUpdate_def finish_def Let_def split: outcome.splits option.splits)
  have fatal: "(\<exists>msg. fst (init getenv newSession route53New) = Some (Fatal msg))
            \<longleftrightarrow> getenv FQDNEnvVar = [] \<or> getenv PublicIPURL = []"
    by (cases newSession) (simp_all add: init_def unset_def Let_def)
  have created: "g_scheduler (snd (init getenv newSession route53New)) = None
            \<longleftrightarrow> getenv FQDNEnvVar = [] \<or> getenv PublicIPURL = []"
    by (cases newSession) (simp_all add: init_def unset_def Let_def)
  have must: "fst (init getenv newSession route53New) = Some (SessionPanic err)
            \<longleftrightarrow> getenv FQDNEnvVar \<noteq> [] \<and> getenv PublicIPURL \<noteq> [] \<and> newSession = Inl err"
    by (cases newSession) (simp_all add: init_def unset_def Let_def)
  have started: "schedulerStarted (program getenv newSession route53New doErr)
            \<longleftrightarrow> getenv FQDNEnvVar \<noteq> [] \<and> getenv PublicIPURL \<noteq> []
                \<and> (\<exists>sess. newSession = Inr sess)"
    by (cases newSession; cases doErr)
      (simp_all add: schedulerStarted_def program_def init_def unset_def main_def
         StartBlocking_def NewScheduler_def Let_def)
  from res lg fatal created must started show ?thesis by simp
qed

theorem cycle_errors_wrapped_witness:
  "result (upsertRoute53Record ''203.0.113.9'' ''home.example.com''
             (stubClient \<lparr>out_DNSName = Some ''example.com.'', out_HostedZones = []\<rparr>
                \<lparr>out_ResourceRecordSets = []\<rparr> (Inr ())))
     = Returned (Some (ZoneNotFoundError ''example.com''))
   \<and> result (getIPAndUpdate (httpBody (''203.0.113.9'' @ [newline])) ''http://ip.example''
             ''home.example.com''
             (stubClient \<lparr>out_DNSName = Some ''example.com.'', out_HostedZones = []\<rparr>
                \<lparr>out_ResourceRecordSets = []\<rparr> (Inr ())))
     = Returned (Some (UpdatePhaseError (ZoneNotFoundError ''example.com'')))
   \<and> logs (getIPAndUpdate (httpBody (''203.0.113.9'' @ [newline])) ''http://ip.example''
             ''home.example.com''
             (stubClient \<lparr>out_DNSName = Some ''example.com.'', out_HostedZones = []\<rparr>
                \<lparr>out_ResourceRecordSets = []\<rparr> (Inr ())))
     = []
   \<and> fst (init (\<lambda>name. if name = FQDNEnvVar then ''home.example.com'' else [])
             (Inl ''no session'' :: string + unit)
             (\<lambda>sess. stubClient \<lparr>out_DNSName = Some ''example.com.'', out_HostedZones = []\<rparr>
                \<lparr>out_ResourceRecordSets = []\<rparr> (Inr ())))
     = Some (Fatal ''CONFIG_R53DDNS_IPURL environmental variable is not set'')
   \<and> g_scheduler (snd (init (\<lambda>name. if name = FQDNEnvVar then ''home.example.com'' else [])
             (Inl ''no session'' :: string + unit)
             (\<lambda>sess. stubClient \<lparr>out_DNSName = Some ''example.com.'', out_HostedZones = []\<rparr>
                \<lparr>out_ResourceRecordSets = []\<rparr> (Inr ()))))
     = None
   \<and> \<not> schedulerStarted (program (\<lambda>name. if name = FQDNEnvVar then ''home.example.com'' else [])
             (Inl ''no session'' :: string + unit)
             (\<lambda>sess. stubClient \<lparr>out_DNSName = Some ''example.com.'', out_HostedZones = []\<rparr>
                \<lparr>out_ResourceRecordSets = []\<rparr> (Inr ()))
             None)"
proof -
  let ?client = "stubClient \<lparr>out_DNSName = Some ''example.com.'', out_HostedZones = []\<rparr>
                \<lparr>out_ResourceRecordSets = []\<rparr> (Inr ())"
  let ?getenv = "\<lambda>name. if name = FQDNEnvVar then ''home.example.com'' else []"
  have ip: "getIP (httpBody (''203.0.113.9'' @ [newline])) ''http://ip.example''
              = (Inr ''203.0.113.9'', [])"
    unfolding getIP_httpBody ParseIP_203_0_113_9 option.case String_203_0_113_9 by simp
  have up: "upsertRoute53Record ''203.0.113.9'' ''home.example.com'' ?client
              = finish (Returned (Some (ZoneNotFoundError ''example.com'')))
                  [CallListHostedZonesByName (zoneLookupInput ''example.com'')] []"
    using tokens_home by (simp add: upsertRoute53Record_def stubClient_def)
  have hyp: "fst (getIP (httpBody (''203.0.113.9'' @ [newline])) ''http://ip.example'')
               = Inl (ZoneNotFoundError ''example.com'')
           \<or> (\<exists>ip. fst (getIP (httpBody (''203.0.113.9'' @ [newline])) ''http://ip.example'') = Inr ip
                 \<and> result (upsertRoute53Record ip ''home.example.com'' ?client)
                     = Returned (Some (ZoneNotFoundError ''example.com'')))"
    unfolding ip by (simp add: up finish_def)
  have env: "?getenv FQDNEnvVar = ''home.example.com''" "?getenv PublicIPURL = []"
    by (simp_all add: FQDNEnvVar_def PublicIPURL_def)
  have msg: "fst (init ?getenv (Inl ''no session'' :: string + unit) (\<lambda>sess. ?client))
               = Some (Fatal ''CONFIG_R53DDNS_IPURL environmental variable is not set'')"
    by (simp add: init_def unset_def Let_def FQDNEnvVar_def PublicIPURL_def)
  from cycle_errors_wrapped
         [where getenv = ?getenv and newSession = "Inl ''no session'' :: string + unit"
            and route53New = "\<lambda>sess. ?client" and doErr = None, OF hyp]
  show ?thesis
    unfolding ip env by (simp add: up finish_def msg)
qed

text \<open>
  Claim C3, as stated, fails: \<open>getIP\<close> returns \<open>ip.String()\<close>, not the text it read.
  The body \<open>2001:DB8::1\<close> is a valid address and comes back in lower case.
\<close>

theorem ipv6_text_rewritten_counterexample:
  "ParseIP ''2001:DB8::1'' = Some [32, 1, 13, 184, 0, 0, 0, 0, 0, 0, 0, 0, 0, 0, 0, 1]
   \<and> fst (getIP (httpBody (''2001:DB8::1'' @ [newline])) ''http://ip.example'')
       = Inr ''2001:db8::1''
   \<and> ''2001:db8::1'' \<noteq> ''2001:DB8::1''"
  unfolding getIP_httpBody ParseIP_upper option.case String_2001_db8_1 by simp

text \<open>
  Claim C3, amended. When the body, after one trailing newline is trimmed, is a valid
  address text for \<open>net.ParseIP\<close>, \<open>getIP\<close> succeeds and returns the canonical text of
  the address read: that text parses to the same address, and it is the trimmed body
  itself whenever the body holds no colon (IPv4 dotted decimal).
\<close>

theorem resolved_address_canonical_text:
  assumes "httpGet ipURL = Inr resp"
    and "resp_ReadAll resp = Inr body"
    and "ParseIP (TrimSuffix body [newline]) = Some ip"
  shows "fst (getIP httpGet ipURL) = Inr (String ip)
       \<and> ParseIP (String ip) = Some ip
       \<and> (CHR '':'' \<notin> set (TrimSuffix body [newline])
            \<longrightarrow> String ip = TrimSuffix body [newline])"
proof -
  have "fst (getIP httpGet ipURL) = Inr (String ip)"
    using assms by (simp add: getIP_def)
  moreover have "ParseIP (String ip) = Some ip"
    by (intro ParseIP_String ParseIP_valid) (rule assms(3))
  moreover have "String ip = TrimSuffix body [newline]"
    if "CHR '':'' \<notin> set (TrimSuffix body [newline])"
    using assms(3) that by (rule ParseIP_no_colon)
  ultimately show ?thesis by blast
qed


theorem resolved_address_canonical_text_witness:
  "ParseIP (TrimSuffix (''203.0.113.9'' @ [newline]) [newline])
     = Some [0, 0, 0, 0, 0, 0, 0, 0, 0, 0, 255, 255, 203, 0, 113, 9]
   \<and> fst (getIP (httpBody (''203.0.113.9'' @ [newline])) ''http://ip.example'')
       = Inr ''203.0.113.9''
   \<and> ParseIP ''203.0.113.9'' = Some [0, 0, 0, 0, 0, 0, 0, 0, 0, 0, 255, 255, 203, 0, 113, 9]
   \<and> CHR '':'' \<notin> set ''203.0.113.9''"
proof -
  let ?body = "''203.0.113.9'' @ [newline]"
  have get: "httpBody ?body ''http://ip.example''
               = Inr \<lparr>resp_ReadAll = Inr ?body, resp_Close = None\<rparr>"
    by (simp add: httpBody_def)
  have body: "resp_ReadAll \<lparr>resp_ReadAll = Inr ?body, resp_Close = None\<rparr> = Inr ?body"
    by simp
  have trim: "TrimSuffix ?body [newline] = ''203.0.113.9''"
    by (rule TrimSuffix_newline_append)
  have parse: "ParseIP (TrimSuffix ?body [newline])
                 = Some [0, 0, 0, 0, 0, 0, 0, 0, 0, 0, 255, 255, 203, 0, 113, 9]"
    unfolding trim by (rule ParseIP_203_0_113_9)
  have nocolon: "CHR '':'' \<notin> set ''203.0.113.9''"
    by simp
  from resolved_address_canonical_text
         [of "httpBody ?body" "''http://ip.example''", OF get body parse]
  have "fst (getIP (httpBody ?body) ''http://ip.example'') = Inr ''203.0.113.9''"
    unfolding trim String_203_0_113_9 by (rule conjunct1)
  with parse ParseIP_203_0_113_9 nocolon show ?thesis
    by (intro conjI)
qed

text \<open>
  Claim C10. Every address text \<open>getIP\<close> returns is canonical: it parses, and printing
  the parsed address gives the same text again; it holds lower-case hexadecimal digits,
  colons and periods only. The witness is the upper-case, uncompressed body
  \<open>2001:DB8:0:0:0:0:0:1\<close>, returned as \<open>2001:db8::1\<close>.
\<close>

theorem returned_address_is_canonical:
  assumes "fst (getIP httpGet ipURL) = Inr s"
  shows "(\<exists>ip. ParseIP s = Some ip \<and> String ip = s)
       \<and> set s \<subseteq> set ''0123456789abcdef:.''"
proof -
  from assms obtain t ip where "ParseIP t = Some ip" and s: "s = String ip"
    by (auto simp: getIP_def Let_def split: sum.splits option.splits)
  then have v: "validIP ip"
    by (intro ParseIP_valid)
  from ParseIP_String [OF v] String_alphabet [OF v] show ?thesis
    unfolding s by blast
qed

theorem returned_address_is_canonical_witness:
  "fst (getIP (httpBody (''2001:DB8:0:0:0:0:0:1'' @ [newline])) ''http://ip.example'')
     = Inr ''2001:db8::1''
   \<and> (\<exists>ip. ParseIP ''2001:db8::1'' = Some ip \<and> String ip = ''2001:db8::1'')
   \<and> set ''2001:db8::1'' \<subseteq> set ''0123456789abcdef:.''"
proof -
  have get: "fst (getIP (httpBody (''2001:DB8:0:0:0:0:0:1'' @ [newline])) ''http://ip.example'')
     = Inr ''2001:db8::1''"
    unfolding getIP_httpBody ParseIP_long option.case String_2001_db8_1 by simp
  from returned_address_is_canonical [OF get] get show ?thesis by blast
qed

end
